theory Spec2Isabelle
  imports Main
begin

section \<open>Firestore exploration script (explore\_firestore.py)\<close>

text \<open>
  The script connects to Firestore, prints sample documents of a few collections and
  writes the list of collection names to a file. Its functions are embedded as state
  transformers over an explicit process state; every call that leaves the script
  (the credential file, the Firebase app registry, the database) is answered by a
  \<open>world\<close> and recorded in a call log; every \<open>raise\<close> is a value \<open>Inl e\<close>.
\<close>

subsection \<open>Characters and printed text\<close>

text \<open>
  A Python \<open>str\<close> is a sequence of code points and \<open>len\<close> counts code points. A
  \<open>string\<close> here holds one \<open>char\<close> per code point, so document data ranges over the
  code points below 256. The pictographs of the script's own messages lie outside that
  range; printed text therefore is a list of symbols, a symbol being a character or one
  of the eight pictographs the script prints.
\<close>

datatype glyph = Cross | Magnifier | Page | CheckMark | People | Person | Package | Clipboard

datatype sym = Ch char | Gl glyph

type_synonym ptext = "sym list"

definition chars :: "string \<Rightarrow> ptext" where
  "chars s = map Ch s"

definition sq :: char where
  "sq = CHR 0x27"

definition dq :: char where
  "dq = CHR 0x22"

definition bs :: char where
  "bs = CHR 0x5C"

text \<open>\<open>"=" * n\<close>\<close>

definition rule_line :: "nat \<Rightarrow> ptext" where
  "rule_line n = chars (replicate n CHR ''='')"

subsection \<open>Numbers and joins as Python prints them\<close>

definition digit :: "nat \<Rightarrow> char" where
  "digit d = ''0123456789abcdef'' ! d"

fun str_nat :: "nat \<Rightarrow> string" where
  "str_nat n =
     (if n < 10 then [digit n]
      else str_nat (n div 10) @ [digit (n mod 10)])"

definition str_int :: "int \<Rightarrow> string" where
  "str_int i = (if i < 0 then CHR ''-'' # str_nat (nat (- i)) else str_nat (nat i))"

text \<open>\<open>sep.join(xs)\<close>\<close>

fun join :: "string \<Rightarrow> string list \<Rightarrow> string" where
  "join sep [] = []"
| "join sep [x] = x"
| "join sep (x # y # ys) = x @ sep @ join sep (y # ys)"

subsection \<open>\<open>repr\<close> of a string\<close>

text \<open>
  Python quotes with \<open>'\<close> unless the string holds a \<open>'\<close> and no \<open>"\<close>; it escapes
  the backslash, the chosen quote, tab, newline and carriage return, and writes every
  other non-printable code point below 256 as \<open>\xhh\<close>.
\<close>

definition printable :: "char \<Rightarrow> bool" where
  "printable c =
     (let n = (of_char c :: nat)
      in (32 \<le> n \<and> n < 127) \<or> (161 \<le> n \<and> n \<noteq> 173))"

definition repr_char :: "char \<Rightarrow> char \<Rightarrow> string" where
  "repr_char q c =
     (if c = q \<or> c = bs then [bs, c]
      else if c = CHR 0x09 then [bs, CHR ''t'']
      else if c = CHR 0x0A then [bs, CHR ''n'']
      else if c = CHR 0x0D then [bs, CHR ''r'']
      else if printable c then [c]
      else [bs, CHR ''x'', digit ((of_char c :: nat) div 16),
            digit ((of_char c :: nat) mod 16)])"

definition repr_str :: "string \<Rightarrow> string" where
  "repr_str s =
     (let q = (if sq \<in> set s \<and> dq \<notin> set s then dq else sq)
      in q # concat (map (repr_char q) s) @ [q])"

subsection \<open>Field values\<close>

text \<open>
  A field value of a document: the variants the script tells apart with
  \<open>isinstance\<close> (\<open>str\<close>, \<open>list\<close>, \<open>dict\<close>), the scalars \<open>None\<close>, \<open>bool\<close>
  and \<open>int\<close>, and \<open>VOther\<close> for every other value Firestore can hand out (a float, a
  timestamp, a reference, a geo point, bytes). The script only reads the type name of
  such a value and prints it, so \<open>VOther\<close> carries exactly that: the name of its type,
  its \<open>str\<close> and its \<open>repr\<close>. A \<open>dict\<close> is an association list in the order of
  iteration, its keys distinct.
\<close>

datatype pyval =
    VNone
  | VBool bool
  | VInt int
  | VStr string
  | VList "pyval list"
  | VDict "(string \<times> pyval) list"
  | VOther string string string

type_synonym fields = "(string \<times> pyval) list"

text \<open>\<open>type(value).__name__\<close>\<close>

fun type_name :: "pyval \<Rightarrow> string" where
  "type_name VNone = ''NoneType''"
| "type_name (VBool b) = ''bool''"
| "type_name (VInt i) = ''int''"
| "type_name (VStr s) = ''str''"
| "type_name (VList xs) = ''list''"
| "type_name (VDict kvs) = ''dict''"
| "type_name (VOther t s r) = t"

fun py_repr :: "pyval \<Rightarrow> string" where
  "py_repr VNone = ''None''"
| "py_repr (VBool b) = (if b then ''True'' else ''False'')"
| "py_repr (VInt i) = str_int i"
| "py_repr (VStr s) = repr_str s"
| "py_repr (VList xs) = ''['' @ join '', '' (map py_repr xs) @ '']''"
| "py_repr (VDict kvs) =
     ''{'' @ join '', '' (map (\<lambda>(k, v). repr_str k @ '': '' @ py_repr v) kvs) @ ''}''"
| "py_repr (VOther t s r) = r"

text \<open>What an f-string puts for \<open>{value}\<close>: \<open>str(value)\<close>.\<close>

fun py_str :: "pyval \<Rightarrow> string" where
  "py_str (VStr s) = s"
| "py_str (VOther t s r) = s"
| "py_str v = py_repr v"

subsection \<open>Rendering of one field\<close>

text \<open>
  Lines 55 to 64 of the source, the \<open>display_value\<close> of \<open>explore_collection_structure\<close>
  as the following \<open>print\<close> formats it:
  \<^verbatim>\<open>
  if isinstance(value, str) and len(value) > 100:
      display_value = f"{value[:50]}...({len(value)} chars)"
  elif isinstance(value, list) and len(value) > 3:
      display_value = f"[{len(value)} items: {value[:2]}...]"
  elif isinstance(value, dict) and len(value) > 5:
      keys = list(value.keys())[:3]
      display_value = f"{{{len(value)} keys: {keys}...}}"
  else:
      display_value = value
  \<close>
\<close>

fun display_value :: "pyval \<Rightarrow> string" where
  "display_value (VStr s) =
     (if length s > 100 then take 50 s @ ''...('' @ str_nat (length s) @ '' chars)''
      else py_str (VStr s))"
| "display_value (VList xs) =
     (if length xs > 3
      then ''['' @ str_nat (length xs) @ '' items: '' @ py_repr (VList (take 2 xs)) @ ''...]''
      else py_str (VList xs))"
| "display_value (VDict kvs) =
     (if length kvs > 5
      then ''{'' @ str_nat (length kvs) @ '' keys: ''
           @ py_repr (VList (map VStr (take 3 (map fst kvs)))) @ ''...}''
      else py_str (VDict kvs))"
| "display_value v = py_str v"

text \<open>\<open>print(f"  {key}: ({value_type}) {display_value}")\<close>\<close>

definition field_line :: "string \<times> pyval \<Rightarrow> ptext" where
  "field_line kv =
     chars (''  '' @ fst kv @ '': ('' @ type_name (snd kv) @ '') '' @ display_value (snd kv))"

text \<open>
  The products step, lines 174 to 180: only the listed fields, a long string cut to 50
  characters and three dots.
\<close>

definition product_fields :: "string list" where
  "product_fields = [''name'', ''sku'', ''price'', ''category'', ''supplierId'', ''uom'',
     ''description'']"

fun product_value :: "pyval \<Rightarrow> string" where
  "product_value (VStr s) = (if length s > 100 then take 50 s @ ''...'' else s)"
| "product_value v = py_str v"

text \<open>
  \<open>for field in fs: if field in data: print(f"  {field}: {show(data[field])}")\<close>, the
  loop shared by the users step (\<open>show = str\<close>) and the products step.
\<close>

fun listed_lines :: "(pyval \<Rightarrow> string) \<Rightarrow> string list \<Rightarrow> fields \<Rightarrow> ptext list" where
  "listed_lines shw [] data = []"
| "listed_lines shw (f # fs) data =
     (case map_of data f of
        None \<Rightarrow> listed_lines shw fs data
      | Some v \<Rightarrow> chars (''  '' @ f @ '': '' @ shw v) # listed_lines shw fs data)"

definition product_lines :: "fields \<Rightarrow> ptext list" where
  "product_lines data = listed_lines product_value product_fields data"

definition user_fields :: "string list" where
  "user_fields = [''email'', ''name'', ''role'', ''type'', ''companyName'', ''created'',
     ''createdAt'']"

definition user_lines :: "fields \<Rightarrow> ptext list" where
  "user_lines data = listed_lines py_str user_fields data"

subsection \<open>\<open>json.dump(names, f, indent=2)\<close>\<close>

text \<open>
  The standard encoder with its defaults: a string is quoted, the quote, the backslash
  and the control characters are escaped, and every code point outside the printable
  ASCII range is written \<open>\uhhhh\<close>; a non-empty array puts each item on a line of its
  own, indented by \<open>indent\<close> spaces, the empty array is \<open>[]\<close>.
\<close>

definition json_char :: "char \<Rightarrow> string" where
  "json_char c =
     (if c = dq then [bs, dq]
      else if c = bs then [bs, bs]
      else if c = CHR 0x0A then [bs, CHR ''n'']
      else if c = CHR 0x0D then [bs, CHR ''r'']
      else if c = CHR 0x09 then [bs, CHR ''t'']
      else if c = CHR 0x08 then [bs, CHR ''b'']
      else if c = CHR 0x0C then [bs, CHR ''f'']
      else if 32 \<le> (of_char c :: nat) \<and> (of_char c :: nat) < 127 then [c]
      else [bs, CHR ''u'', CHR ''0'', CHR ''0'', digit ((of_char c :: nat) div 16),
            digit ((of_char c :: nat) mod 16)])"

definition json_str :: "string \<Rightarrow> string" where
  "json_str s = dq # concat (map json_char s) @ [dq]"

definition json_dumps :: "nat \<Rightarrow> string list \<Rightarrow> string" where
  "json_dumps indent names =
     (if names = [] then ''[]''
      else ''['' @ CHR 0x0A # replicate indent CHR '' ''
           @ join (CHR '','' # CHR 0x0A # replicate indent CHR '' '') (map json_str names)
           @ CHR 0x0A # '']'')"

subsection \<open>The world outside the script\<close>

text \<open>
  Exceptions are subclasses of \<open>Exception\<close>, each with the message \<open>str(e)\<close>;
  \<open>ValueError\<close> is kept apart because \<open>init_firestore\<close> catches it alone.
\<close>

datatype exn = ValueError string | Error string

fun exn_str :: "exn \<Rightarrow> string" where
  "exn_str (ValueError m) = m"
| "exn_str (Error m) = m"

text \<open>A document snapshot: \<open>doc.id\<close> and \<open>doc.to_dict()\<close>.\<close>

record document =
  doc_id :: string
  to_dict :: fields

text \<open>
  The calls that leave the script, as the call log records them:
  \<open>os.path.exists(cred_path)\<close>, \<open>credentials.Certificate(cred_path)\<close>,
  \<open>firebase_admin.initialize_app(cred)\<close>, \<open>firestore.client()\<close>,
  \<open>db.collection(name).limit(n).get()\<close> and \<open>db.collections()\<close> with the iteration
  over its result.
\<close>

datatype call = CredPathExists | Certificate | InitializeApp | Client
  | Get string nat | Collections

text \<open>
  What the world answers. The credential file and the two constructors answer the same
  way during a run; the database answers a query as a function of every call made before
  it, so that any sequence of responses is some world. \<open>Some e\<close> and \<open>Inl e\<close> mean
  that the call raises \<open>e\<close>.
\<close>

record world =
  cred_exists :: bool
  certificate_err :: "exn option"
  client_err :: "exn option"
  get_resp :: "call list \<Rightarrow> string \<Rightarrow> nat \<Rightarrow> exn + document list"
  collections_resp :: "call list \<Rightarrow> exn + string list"
  open_err :: "exn option"

text \<open>
  The process and its working directory: the default Firebase app if one was initialised
  (told apart by the position in the call log at which it was created), the call log,
  the lines printed so far, and the contents of \<open>firestore_collections.json\<close> if the
  file exists.
\<close>

record state =
  app :: "nat option"
  calls :: "call list"
  out :: "ptext list"
  out_file :: "string option"

datatype db = Db nat

subsection \<open>Control flow\<close>

text \<open>
  A piece of the script maps the state to a result and the new state; \<open>Inl e\<close> is an
  exception on its way up, \<open>try_except\<close> is \<open>try: ... except Exception as e: ...\<close>.
  Printing and the formatting of values do not raise.
\<close>

type_synonym 'a prog = "state \<Rightarrow> (exn + 'a) \<times> state"

definition ret :: "'a \<Rightarrow> 'a prog" where
  "ret x s = (Inr x, s)"

definition throw :: "exn \<Rightarrow> 'a prog" where
  "throw e s = (Inl e, s)"

definition bnd :: "'a prog \<Rightarrow> ('a \<Rightarrow> 'b prog) \<Rightarrow> 'b prog" where
  "bnd m f s = (case m s of (Inl e, s') \<Rightarrow> (Inl e, s') | (Inr x, s') \<Rightarrow> f x s')"

definition try_except :: "'a prog \<Rightarrow> (exn \<Rightarrow> 'a prog) \<Rightarrow> 'a prog" where
  "try_except m h s = (case m s of (Inl e, s') \<Rightarrow> h e s' | (Inr x, s') \<Rightarrow> (Inr x, s'))"

text \<open>\<open>try: ... except ValueError: ...\<close>\<close>

definition try_except_ValueError :: "'a prog \<Rightarrow> 'a prog \<Rightarrow> 'a prog" where
  "try_except_ValueError m h s =
     (case m s of
        (Inl (ValueError msg), s') \<Rightarrow> h s'
      | (Inl (Error msg), s') \<Rightarrow> (Inl (Error msg), s')
      | (Inr x, s') \<Rightarrow> (Inr x, s'))"

definition py_print :: "ptext \<Rightarrow> unit prog" where
  "py_print t s = (Inr (), s\<lparr>out := out s @ [t]\<rparr>)"

fun print_all :: "ptext list \<Rightarrow> unit prog" where
  "print_all [] = ret ()"
| "print_all (l # ls) = bnd (py_print l) (\<lambda>_. print_all ls)"

subsection \<open>The calls\<close>

text \<open>\<open>firebase_admin.get_app()\<close> raises \<open>ValueError\<close> when no default app exists.\<close>

definition get_app :: "nat prog" where
  "get_app s =
     (case app s of
        None \<Rightarrow> (Inl (ValueError ''The default Firebase app does not exist.''), s)
      | Some a \<Rightarrow> (Inr a, s))"

definition path_exists :: "world \<Rightarrow> bool prog" where
  "path_exists w s = (Inr (cred_exists w), s\<lparr>calls := calls s @ [CredPathExists]\<rparr>)"

definition certificate :: "world \<Rightarrow> unit prog" where
  "certificate w s =
     (case certificate_err w of
        Some e \<Rightarrow> (Inl e, s\<lparr>calls := calls s @ [Certificate]\<rparr>)
      | None \<Rightarrow> (Inr (), s\<lparr>calls := calls s @ [Certificate]\<rparr>))"

definition initialize_app :: "unit prog" where
  "initialize_app s =
     (case app s of
        Some a \<Rightarrow>
          (Inl (ValueError ''The default Firebase app already exists.''),
           s\<lparr>calls := calls s @ [InitializeApp]\<rparr>)
      | None \<Rightarrow>
          (Inr (), s\<lparr>app := Some (length (calls s)), calls := calls s @ [InitializeApp]\<rparr>))"

text \<open>\<open>firestore.client()\<close>: the client of the default app.\<close>

definition firestore_client :: "world \<Rightarrow> db prog" where
  "firestore_client w s =
     (case app s of
        None \<Rightarrow>
          (Inl (ValueError ''The default Firebase app does not exist.''),
           s\<lparr>calls := calls s @ [Client]\<rparr>)
      | Some a \<Rightarrow>
          (case client_err w of
             Some e \<Rightarrow> (Inl e, s\<lparr>calls := calls s @ [Client]\<rparr>)
           | None \<Rightarrow> (Inr (Db a), s\<lparr>calls := calls s @ [Client]\<rparr>)))"

text \<open>
  \<open>db.collection(name).limit(n).get()\<close>: the limit is part of the query that is
  logged; how many documents come back is up to the service.
\<close>

definition get_documents :: "world \<Rightarrow> string \<Rightarrow> nat \<Rightarrow> document list prog" where
  "get_documents w name n s =
     (get_resp w (calls s) name n, s\<lparr>calls := calls s @ [Get name n]\<rparr>)"

text \<open>\<open>[col.id for col in db.collections()]\<close>\<close>

definition list_collections :: "world \<Rightarrow> string list prog" where
  "list_collections w s =
     (collections_resp w (calls s), s\<lparr>calls := calls s @ [Collections]\<rparr>)"

text \<open>
  \<open>with open('firestore_collections.json', 'w') as f: json.dump(names, f, indent=2)\<close>
\<close>

definition write_collections :: "world \<Rightarrow> string list \<Rightarrow> unit prog" where
  "write_collections w names s =
     (case open_err w of
        Some e \<Rightarrow> (Inl e, s)
      | None \<Rightarrow> (Inr (), s\<lparr>out_file := Some (json_dumps 2 names)\<rparr>))"

subsection \<open>\<open>init_firestore\<close>\<close>

definition cred_path :: string where
  "cred_path = ''/Users/eric/kasbah/kasbah/python/cred.json''"

text \<open>\<open>print(f"... Credentials file not found at {cred_path}")\<close>\<close>

definition cred_missing_line :: ptext where
  "cred_missing_line = Gl Cross # chars ('' Credentials file not found at '' @ cred_path)"

text \<open>
  The \<open>try\<close> statement yields whether its handler ran \<open>return None\<close>; otherwise the
  function goes on to \<open>return firestore.client()\<close>. An exception of
  \<open>credentials.Certificate\<close> leaves the handler and the function.
\<close>

definition init_firestore :: "world \<Rightarrow> db option prog" where
  "init_firestore w =
     bnd (try_except_ValueError
            (bnd get_app (\<lambda>_. ret False))
            (bnd (path_exists w) (\<lambda>ex.
               if \<not> ex
               then bnd (py_print cred_missing_line) (\<lambda>_. ret True)
               else bnd (certificate w) (\<lambda>_. bnd initialize_app (\<lambda>_. ret False)))))
       (\<lambda>returned. if returned then ret None
                   else bnd (firestore_client w) (\<lambda>d. ret (Some d)))"

subsection \<open>\<open>explore_collection_structure\<close>\<close>

text \<open>The loop over \<open>enumerate(docs, 1)\<close>, with \<open>sample_docs\<close> as accumulator.\<close>

fun explore_docs :: "nat \<Rightarrow> document list \<Rightarrow> document list \<Rightarrow> document list prog" where
  "explore_docs i [] sample_docs = ret sample_docs"
| "explore_docs i (doc # docs) sample_docs =
     bnd (py_print (chars [CHR 0x0A] @ Gl Page
            # chars ('' Document '' @ str_nat i @ '' (ID: '' @ doc_id doc @ ''):'')))
       (\<lambda>_. if to_dict doc \<noteq> []
             then bnd (print_all (map field_line (to_dict doc)))
                    (\<lambda>_. explore_docs (Suc i) docs
                            (sample_docs @ [\<lparr>doc_id = doc_id doc, to_dict = to_dict doc\<rparr>]))
             else bnd (py_print (chars ''  (No data)''))
                    (\<lambda>_. explore_docs (Suc i) docs sample_docs))"

text \<open>The two diagnostics of \<open>explore_collection_structure\<close>, lines 38 and 78.\<close>

definition failed_init_line :: ptext where
  "failed_init_line = Gl Cross # chars '' Failed to initialize Firestore''"

definition collection_error_line :: "string \<Rightarrow> exn \<Rightarrow> ptext" where
  "collection_error_line collection_name e =
     Gl Cross # chars ('' Error exploring collection '' @ [sq] @ collection_name @ [sq] @ '': ''
       @ exn_str e)"

definition explore_collection_structure :: "world \<Rightarrow> string \<Rightarrow> nat \<Rightarrow> document list prog" where
  "explore_collection_structure w collection_name limit =
     bnd (py_print (chars [CHR 0x0A] @ Gl Magnifier
            # chars ('' Exploring '' @ [sq] @ collection_name @ [sq] @ '' collection...'')))
       (\<lambda>_. bnd (py_print (rule_line 60))
       (\<lambda>_. try_except
          (bnd (init_firestore w) (\<lambda>db.
             case db of
               None \<Rightarrow> bnd (py_print failed_init_line) (\<lambda>_. ret [])
             | Some d \<Rightarrow>
                 bnd (get_documents w collection_name limit) (\<lambda>docs.
                 bnd (py_print (chars (''Found '' @ str_nat (length docs) @ '' documents in ''
                        @ [sq] @ collection_name @ [sq])))
                   (\<lambda>_. explore_docs 1 docs []))))
          (\<lambda>e. bnd (py_print (collection_error_line collection_name e))
                 (\<lambda>_. ret []))))"

subsection \<open>\<open>find_orders_by_criteria\<close>\<close>

text \<open>
  What the step functions return: a collection name, \<open>None\<close>, or the empty list
  \<open>[]\<close> of the early \<open>return []\<close>.
\<close>

datatype retval = Name string | PyNone | EmptyList

definition collections_to_try :: "string list" where
  "collections_to_try = [''orders'', ''Orders'', ''order'', ''purchase_orders'',
     ''transactions'']"

definition order_fields :: "string list" where
  "order_fields = [''status'', ''total'', ''customerId'', ''supplierId'', ''buyerId'',
     ''created'', ''createdAt'', ''updated'', ''updatedAt'', ''items'']"

text \<open>\<open>found_fields\<close>: \<open>f"{field}: {data[field]}"\<close> for the listed fields in \<open>data\<close>.\<close>

fun found_fields :: "string list \<Rightarrow> fields \<Rightarrow> string list" where
  "found_fields [] data = []"
| "found_fields (f # fs) data =
     (case map_of data f of
        None \<Rightarrow> found_fields fs data
      | Some v \<Rightarrow> (f @ '': '' @ py_str v) # found_fields fs data)"

text \<open>The loop over \<open>docs\<close> ends with \<open>break\<close>: only the first document is shown.\<close>

fun show_first_order :: "document list \<Rightarrow> unit prog" where
  "show_first_order [] = ret ()"
| "show_first_order (doc # docs) =
     bnd (py_print (chars (''  Order ID: '' @ doc_id doc)))
       (\<lambda>_. if found_fields order_fields (to_dict doc) \<noteq> []
             then py_print (chars (''    Key fields: ''
                    @ join '', '' (take 3 (found_fields order_fields (to_dict doc)))))
             else ret ())"

definition found_orders_line :: "string \<Rightarrow> ptext" where
  "found_orders_line collection_name =
     Gl CheckMark # chars ('' Found orders in collection: '' @ [sq] @ collection_name @ [sq])"

text \<open>
  The loop over the candidate names. The inner \<open>try\<close> yields whether it reached
  \<open>return collection_name\<close>; its handler is \<open>continue\<close>.
\<close>

text \<open>The two diagnostics of \<open>find_orders_by_criteria\<close>, lines 121 and 125.\<close>

definition no_orders_line :: ptext where
  "no_orders_line = Gl Cross # chars '' No orders collection found with standard names''"

definition orders_error_line :: "exn \<Rightarrow> ptext" where
  "orders_error_line e = Gl Cross # chars ('' Error searching for orders: '' @ exn_str e)"

fun try_collections :: "world \<Rightarrow> string list \<Rightarrow> retval prog" where
  "try_collections w [] =
     bnd (py_print no_orders_line) (\<lambda>_. ret PyNone)"
| "try_collections w (collection_name # rest) =
     bnd (try_except
            (bnd (get_documents w collection_name 3) (\<lambda>docs.
               if docs \<noteq> []
               then bnd (py_print (found_orders_line collection_name))
                      (\<lambda>_. bnd (show_first_order docs) (\<lambda>_. ret True))
               else ret False))
            (\<lambda>e. ret False))
       (\<lambda>returned. if returned then ret (Name collection_name)
                   else try_collections w rest)"

definition find_orders_by_criteria :: "world \<Rightarrow> retval prog" where
  "find_orders_by_criteria w =
     bnd (py_print (chars [CHR 0x0A] @ Gl Magnifier # chars '' Searching for orders...''))
       (\<lambda>_. bnd (py_print (rule_line 60))
       (\<lambda>_. try_except
          (bnd (init_firestore w) (\<lambda>db.
             case db of
               None \<Rightarrow> ret EmptyList
             | Some d \<Rightarrow> try_collections w collections_to_try))
          (\<lambda>e. bnd (py_print (orders_error_line e)) (\<lambda>_. ret PyNone))))"

subsection \<open>\<open>explore_users_structure\<close> and \<open>explore_products_structure\<close>\<close>

text \<open>What the loop over \<open>users\<close> prints for one user.\<close>

definition user_block :: "document \<Rightarrow> ptext list" where
  "user_block user =
     (chars [CHR 0x0A] @ Gl Person # chars ('' User ID: '' @ doc_id user))
     # user_lines (to_dict user)"

definition users_error_line :: "exn \<Rightarrow> ptext" where
  "users_error_line e = Gl Cross # chars ('' Error exploring users: '' @ exn_str e)"

definition explore_users_structure :: "world \<Rightarrow> retval prog" where
  "explore_users_structure w =
     bnd (py_print (chars [CHR 0x0A] @ Gl People # chars '' Exploring users structure...''))
       (\<lambda>_. bnd (py_print (rule_line 60))
       (\<lambda>_. try_except
          (bnd (init_firestore w) (\<lambda>db.
             case db of
               None \<Rightarrow> ret EmptyList
             | Some d \<Rightarrow>
                 bnd (get_documents w ''users'' 3) (\<lambda>users.
                 bnd (print_all (concat (map user_block users))) (\<lambda>_. ret PyNone))))
          (\<lambda>e. bnd (py_print (users_error_line e)) (\<lambda>_. ret PyNone))))"

text \<open>What the loop over \<open>enumerate(products, 1)\<close> prints for one product.\<close>

definition product_block :: "nat \<times> document \<Rightarrow> ptext list" where
  "product_block ip =
     (chars [CHR 0x0A] @ Gl Package
        # chars ('' Product '' @ str_nat (fst ip) @ '' (ID: '' @ doc_id (snd ip) @ ''):''))
     # product_lines (to_dict (snd ip))"

definition products_error_line :: "exn \<Rightarrow> ptext" where
  "products_error_line e = Gl Cross # chars ('' Error exploring products: '' @ exn_str e)"

definition explore_products_structure :: "world \<Rightarrow> retval prog" where
  "explore_products_structure w =
     bnd (py_print (chars [CHR 0x0A] @ Gl Package # chars '' Exploring products structure...''))
       (\<lambda>_. bnd (py_print (rule_line 60))
       (\<lambda>_. try_except
          (bnd (init_firestore w) (\<lambda>db.
             case db of
               None \<Rightarrow> ret EmptyList
             | Some d \<Rightarrow>
                 bnd (get_documents w ''products'' 5) (\<lambda>products.
                 bnd (py_print (chars (''Found '' @ str_nat (length products) @ '' products'')))
                   (\<lambda>_. bnd (print_all (concat (map product_block (enumerate 1 products))))
                   (\<lambda>_. ret PyNone)))))
          (\<lambda>e. bnd (py_print (products_error_line e)) (\<lambda>_. ret PyNone))))"

subsection \<open>\<open>main\<close>\<close>

text \<open>\<open>if orders_collection:\<close> holds for a non-empty name only.\<close>

fun truthy :: "retval \<Rightarrow> bool" where
  "truthy (Name n) = (n \<noteq> [])"
| "truthy PyNone = False"
| "truthy EmptyList = False"

fun name_of :: "retval \<Rightarrow> string" where
  "name_of (Name n) = n"
| "name_of r = []"

definition listing_error_line :: "exn \<Rightarrow> ptext" where
  "listing_error_line e = Gl Cross # chars ('' Error listing collections: '' @ exn_str e)"

text \<open>The last \<open>try\<close> statement of \<open>main\<close>, lines 206 to 220.\<close>

definition list_all_collections :: "world \<Rightarrow> unit prog" where
  "list_all_collections w =
     try_except
       (bnd (init_firestore w) (\<lambda>db.
          case db of
            None \<Rightarrow> ret ()
          | Some d \<Rightarrow>
              bnd (list_collections w) (\<lambda>collection_names.
              bnd (py_print (chars (''Available collections: ''
                     @ py_repr (VList (map VStr collection_names)))))
                (\<lambda>_. bnd (write_collections w collection_names)
                (\<lambda>_. py_print
                        (chars ''Collection names saved to: firestore_collections.json''))))))
       (\<lambda>e. py_print (listing_error_line e))"

definition main :: "world \<Rightarrow> unit prog" where
  "main w =
     bnd (py_print (Gl Magnifier # chars '' FIRESTORE EXPLORATION''))
       (\<lambda>_. bnd (py_print (rule_line 80))
       (\<lambda>_. bnd (py_print (chars
                ''Exploring Firestore collections to understand data structure for API...''))
       (\<lambda>_. bnd (explore_users_structure w)
       (\<lambda>_. bnd (find_orders_by_criteria w)
       (\<lambda>orders_collection.
          bnd (if truthy orders_collection
               then bnd (explore_collection_structure w (name_of orders_collection) 3)
                      (\<lambda>_. ret ())
               else ret ())
       (\<lambda>_. bnd (explore_products_structure w)
       (\<lambda>_. bnd (py_print (chars [CHR 0x0A] @ Gl Clipboard
                     # chars '' Listing all collections...''))
       (\<lambda>_. bnd (py_print (rule_line 60))
       (\<lambda>_. list_all_collections w)))))))))"

text \<open>
  The exit status of \<open>python explore_firestore.py\<close>: 0 when \<open>main()\<close> returns, 1
  when an exception leaves it.
\<close>

definition exit_status :: "world \<Rightarrow> state \<Rightarrow> nat" where
  "exit_status w s = (case fst (main w s) of Inl e \<Rightarrow> 1 | Inr u \<Rightarrow> 0)"

text \<open>
  A process at its start: no Firebase app, nothing called or printed, the output file as
  an earlier run left it.
\<close>

definition fresh_process :: "string option \<Rightarrow> state" where
  "fresh_process f = \<lparr>app = None, calls = [], out = [], out_file = f\<rparr>"

text \<open>The file that one run of the script leaves behind.\<close>

definition run_file :: "world \<Rightarrow> string option \<Rightarrow> string option" where
  "run_file w f = out_file (snd (main w (fresh_process f)))"

subsection \<open>Notions for stating the properties\<close>

text \<open>
  \<open>init_firestore\<close> gets a handle in state \<open>s\<close>: the client constructor does not
  raise, and either an app exists or the credential file is there and loads.
\<close>

definition connects :: "world \<Rightarrow> state \<Rightarrow> bool" where
  "connects w s =
     (client_err w = None \<and> (app s \<noteq> None \<or> (cred_exists w \<and> certificate_err w = None)))"

text \<open>The calls by which \<open>init_firestore\<close> gets its handle in state \<open>s\<close>.\<close>

definition session_calls :: "state \<Rightarrow> call list" where
  "session_calls s =
     (case app s of
        None \<Rightarrow> [CredPathExists, Certificate, InitializeApp, Client]
      | Some a \<Rightarrow> [Client])"

text \<open>Fetching up to 3 documents from each of the names, in order.\<close>

definition queries :: "string list \<Rightarrow> call list" where
  "queries names = map (\<lambda>name. Get name 3) names"

text \<open>
  What the database answers to the query for the \<open>i\<close>-th name when the names before
  it were queried in order, the first of them after the calls \<open>h\<close>.
\<close>

definition answer :: "world \<Rightarrow> call list \<Rightarrow> string list \<Rightarrow> nat \<Rightarrow> exn + document list" where
  "answer w h names i = get_resp w (h @ queries (take i names)) (names ! i) 3"

fun yields_document :: "exn + document list \<Rightarrow> bool" where
  "yields_document (Inr (d # ds)) = True"
| "yields_document r = False"

text \<open>\<open>n\<close> calls of \<open>init_firestore\<close> one after the other, with their results.\<close>

fun init_times :: "world \<Rightarrow> nat \<Rightarrow> state \<Rightarrow> (exn + db option) list \<times> state" where
  "init_times w 0 s = ([], s)"
| "init_times w (Suc n) s =
     (case init_firestore w s of
        (r, s') \<Rightarrow> (case init_times w n s' of (rs, s'') \<Rightarrow> (r # rs, s'')))"

text \<open>
  A mock service for concrete runs: the credential file is there and loads, the client
  is built, opening the output file succeeds, and the database answers each query by
  the name of the collection alone.
\<close>

definition mock_service :: "(string \<Rightarrow> exn + document list) \<Rightarrow> (exn + string list) \<Rightarrow> world" where
  "mock_service docs names =
     \<lparr>cred_exists = True, certificate_err = None, client_err = None,
      get_resp = (\<lambda>h name n. docs name), collections_resp = (\<lambda>h. names),
      open_err = None\<rparr>"

text \<open>Concrete services for the examples.\<close>

definition sample_order :: document where
  "sample_order = \<lparr>doc_id = ''o1'', to_dict = [(''status'', VStr ''paid''), (''total'', VInt 40)]\<rparr>"

text \<open>
  \<open>order\<close>, the third candidate, is the first name with a document; \<open>Orders\<close> raises;
  \<open>transactions\<close> has a document too.
\<close>

definition third_name_service :: world where
  "third_name_service =
     mock_service
       (\<lambda>name. if name = ''order'' \<or> name = ''transactions'' then Inr [sample_order]
               else if name = ''Orders'' then Inl (Error ''permission denied'')
               else Inr [])
       (Inr [''users'', ''order''])"

text \<open>No collection has a document.\<close>

definition empty_service :: world where
  "empty_service = mock_service (\<lambda>name. Inr []) (Inr [])"






section \<open>Properties\<close>

subsection \<open>Rendering\<close>

text \<open>A string of printable characters without quote or backslash is quoted as it is.\<close>

lemma repr_str_plain:
  assumes "\<forall>c \<in> set s. printable c \<and> c \<noteq> sq \<and> c \<noteq> bs"
  shows "repr_str s = sq # s @ [sq]"
proof -
  have p: "printable c \<Longrightarrow> c \<noteq> CHR 0x09 \<and> c \<noteq> CHR 0x0A \<and> c \<noteq> CHR 0x0D" for c
    by (auto simp: printable_def)
  from assms have "concat (map (repr_char sq) s) = s"
    by (induction s) (auto simp: repr_char_def dest: p)
  moreover from assms have "sq \<notin> set s" by auto
  ultimately show ?thesis by (simp add: repr_str_def)
qed

lemma suffix_after:
  assumes "xs = pre @ mid @ post"
  shows "set post \<subseteq> set (drop (length mid) xs)"
proof -
  from assms have "post = drop (length pre) (drop (length mid) xs)"
    by (simp add: add.commute)
  then show ?thesis
    by (metis set_drop_subset)
qed

lemma map_of_filter_key:
  "map_of (filter (\<lambda>kv. fst kv \<in> A) data) f = (if f \<in> A then map_of data f else None)"
  by (induction data) auto

lemma listed_lines_filter:
  assumes "set fs \<subseteq> A"
  shows "listed_lines shw fs (filter (\<lambda>kv. fst kv \<in> A) data) = listed_lines shw fs data"
  using assms by (induction fs) (auto simp: map_of_filter_key split: option.splits)

lemma listed_lines_closed:
  "listed_lines shw fs data
   = map (\<lambda>f. chars (''  '' @ f @ '': '' @ shw (the (map_of data f))))
       (filter (\<lambda>f. map_of data f \<noteq> None) fs)"
  by (induction fs) auto

text \<open>
  Claim C3, as the code has it. A string field of 120 characters renders as its first 50
  characters followed by the annotation of its length, \<open>...(120 chars)\<close>. A list field
  of 5 items renders as the count annotation \<open>[5 items: \<close> followed by the list of
  exactly its first 2 items and \<open>...]\<close>; a mapping field with 8 keys renders as the
  count annotation \<open>{8 keys: \<close> followed by the list of exactly its first 3 keys and
  \<open>...}\<close>. For lists and mappings the count comes before the items, not after them.
\<close>

theorem display_value_truncation:
  "(length s = 120 \<longrightarrow> display_value (VStr s) = take 50 s @ ''...(120 chars)'')
   \<and> (length xs = 5 \<longrightarrow>
        display_value (VList xs) = ''[5 items: '' @ py_repr (VList (take 2 xs)) @ ''...]'')
   \<and> (length kvs = 8 \<longrightarrow>
        display_value (VDict kvs)
        = ''{8 keys: '' @ py_repr (VList (map VStr (take 3 (map fst kvs)))) @ ''...}'')"
  by (simp add: digit_def)

theorem display_value_truncation_witness:
  "length (replicate 120 CHR ''x'') = 120
   \<and> display_value (VStr (replicate 120 CHR ''x'')) = replicate 50 CHR ''x'' @ ''...(120 chars)''
   \<and> length [VInt 10, VInt 20, VInt 30, VInt 40, VInt 50] = 5
   \<and> display_value (VList [VInt 10, VInt 20, VInt 30, VInt 40, VInt 50])
       = ''[5 items: [10, 20]...]''
   \<and> length [(''a'', VInt 1), (''b'', VInt 1), (''c'', VInt 1), (''d'', VInt 1),
         (''e'', VInt 1), (''f'', VInt 1), (''g'', VInt 1), (''h'', VInt 1)] = 8
   \<and> display_value (VDict [(''a'', VInt 1), (''b'', VInt 1), (''c'', VInt 1), (''d'', VInt 1),
         (''e'', VInt 1), (''f'', VInt 1), (''g'', VInt 1), (''h'', VInt 1)])
       = ''{8 keys: ['' @ [sq] @ ''a'' @ [sq] @ '', '' @ [sq] @ ''b'' @ [sq] @ '', ''
         @ [sq] @ ''c'' @ [sq] @ '']...}''"
  using display_value_truncation [of "replicate 120 CHR ''x''"
     "[VInt 10, VInt 20, VInt 30, VInt 40, VInt 50]"
     "[(''a'', VInt 1), (''b'', VInt 1), (''c'', VInt 1), (''d'', VInt 1),
       (''e'', VInt 1), (''f'', VInt 1), (''g'', VInt 1), (''h'', VInt 1)]"]
  by (simp add: str_int_def digit_def repr_str_plain printable_def sq_def bs_def)

text \<open>
  Claim C3 as stated fails for lists: in the rendering of the 5-item list
  \<open>[10, 20, 30, 40, 50]\<close>, which is \<open>[5 items: [10, 20]...]\<close>, nothing that follows
  the first 2 items mentions the count 5.
\<close>

theorem display_value_count_not_after_items:
  "\<not> (\<exists>pre ann.
         display_value (VList [VInt 10, VInt 20, VInt 30, VInt 40, VInt 50])
         = pre @ py_repr (VList (take 2 [VInt 10, VInt 20, VInt 30, VInt 40, VInt 50])) @ ann
         \<and> CHR ''5'' \<in> set ann)"
proof
  assume "\<exists>pre ann.
         display_value (VList [VInt 10, VInt 20, VInt 30, VInt 40, VInt 50])
         = pre @ py_repr (VList (take 2 [VInt 10, VInt 20, VInt 30, VInt 40, VInt 50])) @ ann
         \<and> CHR ''5'' \<in> set ann"
  then obtain pre ann where eq: "''[5 items: [10, 20]...]'' = pre @ ''[10, 20]'' @ ann"
    and five: "CHR ''5'' \<in> set ann"
    by (auto simp: str_int_def digit_def)
  from suffix_after [OF eq] five show False by auto
qed

text \<open>
  Claim C8. The thresholds of \<open>display_value\<close>: a string of at most 100 characters is
  rendered verbatim and only a longer one is cut to 50 characters; a list of at most 3
  items is rendered in full and only a longer one is abbreviated; a mapping of at most 5
  keys is rendered in full and only a larger one is abbreviated.
\<close>

theorem display_value_thresholds:
  "(length s \<le> 100 \<longrightarrow> display_value (VStr s) = s)
   \<and> (100 < length s \<longrightarrow>
        display_value (VStr s) = take 50 s @ ''...('' @ str_nat (length s) @ '' chars)'')
   \<and> (length xs \<le> 3 \<longrightarrow> display_value (VList xs) = py_repr (VList xs))
   \<and> (3 < length xs \<longrightarrow>
        display_value (VList xs)
        = ''['' @ str_nat (length xs) @ '' items: '' @ py_repr (VList (take 2 xs)) @ ''...]'')
   \<and> (length kvs \<le> 5 \<longrightarrow> display_value (VDict kvs) = py_repr (VDict kvs))
   \<and> (5 < length kvs \<longrightarrow>
        display_value (VDict kvs)
        = ''{'' @ str_nat (length kvs) @ '' keys: ''
          @ py_repr (VList (map VStr (take 3 (map fst kvs)))) @ ''...}'')"
  by simp

theorem display_value_thresholds_witness:
  "length (replicate 100 CHR ''a'') \<le> 100
   \<and> display_value (VStr (replicate 100 CHR ''a'')) = replicate 100 CHR ''a''
   \<and> 100 < length (replicate 101 CHR ''a'')
   \<and> display_value (VStr (replicate 101 CHR ''a'')) = replicate 50 CHR ''a'' @ ''...(101 chars)''
   \<and> length [VInt 1, VInt 2, VInt 3] \<le> 3
   \<and> display_value (VList [VInt 1, VInt 2, VInt 3]) = ''[1, 2, 3]''
   \<and> 3 < length [VInt 1, VInt 2, VInt 3, VInt 4]
   \<and> display_value (VList [VInt 1, VInt 2, VInt 3, VInt 4]) = ''[4 items: [1, 2]...]''
   \<and> length [(''a'', VInt 1), (''b'', VInt 2), (''c'', VInt 3), (''d'', VInt 4), (''e'', VInt 5)] \<le> 5
   \<and> display_value (VDict [(''a'', VInt 1), (''b'', VInt 2), (''c'', VInt 3), (''d'', VInt 4),
         (''e'', VInt 5)])
       = ''{'' @ [sq] @ ''a'' @ [sq] @ '': 1, '' @ [sq] @ ''b'' @ [sq] @ '': 2, ''
         @ [sq] @ ''c'' @ [sq] @ '': 3, '' @ [sq] @ ''d'' @ [sq] @ '': 4, ''
         @ [sq] @ ''e'' @ [sq] @ '': 5}''
   \<and> 5 < length [(''a'', VNone), (''b'', VNone), (''c'', VNone), (''d'', VNone), (''e'', VNone),
         (''f'', VNone)]
   \<and> display_value (VDict [(''a'', VNone), (''b'', VNone), (''c'', VNone), (''d'', VNone),
         (''e'', VNone), (''f'', VNone)])
       = ''{6 keys: ['' @ [sq] @ ''a'' @ [sq] @ '', '' @ [sq] @ ''b'' @ [sq] @ '', ''
         @ [sq] @ ''c'' @ [sq] @ '']...}''"
  using display_value_thresholds [of "replicate 100 CHR ''a''" "[VInt 1, VInt 2, VInt 3]"
     "[(''a'', VInt 1), (''b'', VInt 2), (''c'', VInt 3), (''d'', VInt 4), (''e'', VInt 5)]"]
    display_value_thresholds [of "replicate 101 CHR ''a''" "[VInt 1, VInt 2, VInt 3, VInt 4]"
     "[(''a'', VNone), (''b'', VNone), (''c'', VNone), (''d'', VNone), (''e'', VNone),
       (''f'', VNone)]"]
  by (simp add: str_int_def digit_def repr_str_plain printable_def sq_def bs_def)

text \<open>
  Claim C9. In the products step a string longer than 100 characters is rendered as its
  first 50 characters and \<open>...\<close>, with no annotation of its length, which is not what
  \<open>display_value\<close> renders; and only the fields of the fixed list are printed: the
  lines of a product are those of the listed fields it has, in the order of the list,
  and the fields outside the list have no influence on what is printed.
\<close>

theorem product_rendering:
  "(100 < length s \<longrightarrow>
      product_value (VStr s) = take 50 s @ ''...''
      \<and> product_value (VStr s) \<noteq> display_value (VStr s))
   \<and> product_block (i, doc)
       = product_block
           (i, doc\<lparr>to_dict := filter (\<lambda>kv. fst kv \<in> set product_fields) (to_dict doc)\<rparr>)
   \<and> product_lines data
       = map (\<lambda>f. chars (''  '' @ f @ '': '' @ product_value (the (map_of data f))))
           (filter (\<lambda>f. map_of data f \<noteq> None) product_fields)
   \<and> product_fields = [''name'', ''sku'', ''price'', ''category'', ''supplierId'', ''uom'',
        ''description'']"
proof (intro conjI)
  show "100 < length s \<longrightarrow>
      product_value (VStr s) = take 50 s @ ''...''
      \<and> product_value (VStr s) \<noteq> display_value (VStr s)"
    by simp
  show "product_block (i, doc)
       = product_block
           (i, doc\<lparr>to_dict := filter (\<lambda>kv. fst kv \<in> set product_fields) (to_dict doc)\<rparr>)"
    by (simp add: product_block_def product_lines_def listed_lines_filter)
  show "product_lines data
       = map (\<lambda>f. chars (''  '' @ f @ '': '' @ product_value (the (map_of data f))))
           (filter (\<lambda>f. map_of data f \<noteq> None) product_fields)"
    unfolding product_lines_def by (rule listed_lines_closed)
  show "product_fields = [''name'', ''sku'', ''price'', ''category'', ''supplierId'', ''uom'',
        ''description'']"
    by (rule product_fields_def)
qed

theorem product_rendering_witness:
  "100 < length (replicate 101 CHR ''y'')
   \<and> product_value (VStr (replicate 101 CHR ''y'')) = replicate 50 CHR ''y'' @ ''...''
   \<and> product_lines [(''secret'', VInt 7), (''sku'', VStr ''A1''), (''name'', VStr ''Bolt'')]
       = [chars ''  name: Bolt'', chars ''  sku: A1'']"
  using product_rendering [of "replicate 101 CHR ''y''" 1 "\<lparr>doc_id = ''p'', to_dict = []\<rparr>"
     "[(''secret'', VInt 7), (''sku'', VStr ''A1''), (''name'', VStr ''Bolt'')]"]
  by (simp add: product_fields_def)

subsection \<open>Connecting\<close>

lemmas prims = bnd_def ret_def throw_def try_except_def try_except_ValueError_def py_print_def
  get_app_def path_exists_def certificate_def initialize_app_def firestore_client_def
  get_documents_def list_collections_def write_collections_def

lemma init_firestore_app:
  "app s = Some a \<Longrightarrow>
   init_firestore w s
   = ((case client_err w of Some e \<Rightarrow> Inl e | None \<Rightarrow> Inr (Some (Db a))),
      s\<lparr>calls := calls s @ [Client]\<rparr>)"
  by (simp add: init_firestore_def bnd_def try_except_ValueError_def get_app_def ret_def
        firestore_client_def split: option.splits)

lemma init_firestore_no_cred:
  "app s = None \<Longrightarrow> \<not> cred_exists w \<Longrightarrow>
   init_firestore w s
   = (Inr None, s\<lparr>calls := calls s @ [CredPathExists], out := out s @ [cred_missing_line]\<rparr>)"
  by (simp add: init_firestore_def bnd_def try_except_ValueError_def get_app_def ret_def
        path_exists_def py_print_def cred_missing_line_def)

lemma init_firestore_fresh:
  "app s = None \<Longrightarrow> cred_exists w \<Longrightarrow> certificate_err w = None \<Longrightarrow> client_err w = None \<Longrightarrow>
   init_firestore w s
   = (Inr (Some (Db (length (calls s) + 2))),
      s\<lparr>calls := calls s @ [CredPathExists, Certificate, InitializeApp, Client],
        app := Some (length (calls s) + 2)\<rparr>)"
  by (simp add: init_firestore_def bnd_def try_except_ValueError_def get_app_def ret_def
        path_exists_def certificate_def initialize_app_def firestore_client_def)

lemma init_times_app:
  "app s = Some a \<Longrightarrow>
   init_times w n s
   = (replicate n (case client_err w of Some e \<Rightarrow> Inl e | None \<Rightarrow> Inr (Some (Db a))),
      s\<lparr>calls := calls s @ replicate n Client\<rparr>)"
proof (induction n arbitrary: s)
  case 0
  then show ?case by simp
next
  case (Suc n)
  have "app (s\<lparr>calls := calls s @ [Client]\<rparr>) = Some a" using Suc.prems by simp
  from Suc.IH [OF this] show ?case
    by (simp add: init_firestore_app [OF Suc.prems] replicate_app_Cons_same)
qed

lemma init_firestore_handle_app:
  "init_firestore w s = (Inr (Some (Db a)), s') \<Longrightarrow> app s' = Some a \<and> client_err w = None"
  by (auto simp add: init_firestore_def bnd_def try_except_ValueError_def get_app_def ret_def
        path_exists_def certificate_def initialize_app_def firestore_client_def py_print_def
        split: option.splits if_splits)

subsection \<open>The discovery loop\<close>

lemma init_firestore_connects:
  assumes "connects w s"
  shows "\<exists>a. init_firestore w s
           = (Inr (Some (Db a)), s\<lparr>app := Some a, calls := calls s @ session_calls s\<rparr>)"
  using assms
  by (cases "app s")
     (auto simp: connects_def session_calls_def init_firestore_def prims)

lemma show_first_order_frame:
  "fst (show_first_order docs s) = Inr ()
   \<and> calls (snd (show_first_order docs s)) = calls s
   \<and> app (snd (show_first_order docs s)) = app s
   \<and> out_file (snd (show_first_order docs s)) = out_file s"
  by (cases docs) (auto simp: prims)

lemma try_collections_skip:
  assumes "\<not> yields_document (get_resp w (calls s) c 3)"
  shows "try_collections w (c # rest) s
         = try_collections w rest (s\<lparr>calls := calls s @ [Get c 3]\<rparr>)"
proof (cases "get_resp w (calls s) c 3")
  case (Inl e)
  then show ?thesis by (simp add: prims)
next
  case (Inr docs)
  with assms have "docs = []" by (cases docs) auto
  with Inr show ?thesis by (simp add: prims)
qed

lemma try_collections_accept:
  assumes "yields_document (get_resp w (calls s) c 3)"
  shows "fst (try_collections w (c # rest) s) = Inr (Name c)
   \<and> calls (snd (try_collections w (c # rest) s)) = calls s @ [Get c 3]
   \<and> app (snd (try_collections w (c # rest) s)) = app s
   \<and> out_file (snd (try_collections w (c # rest) s)) = out_file s"
proof -
  from assms obtain d ds where r: "get_resp w (calls s) c 3 = Inr (d # ds)"
    by (cases "get_resp w (calls s) c 3" rule: yields_document.cases) auto
  let ?s1 = "s\<lparr>calls := calls s @ [Get c 3], out := out s @ [found_orders_line c]\<rparr>"
  obtain x s2 where p: "show_first_order (d # ds) ?s1 = (x, s2)"
    by (cases "show_first_order (d # ds) ?s1") auto
  with show_first_order_frame [of "d # ds" ?s1]
  have "x = Inr ()" "calls s2 = calls s @ [Get c 3]" "app s2 = app s" "out_file s2 = out_file s"
    by simp_all
  with r p show ?thesis by (simp add: prims del: show_first_order.simps)
qed

lemma answer_Cons_Suc:
  "answer w h (c # rest) (Suc j) = answer w (h @ [Get c 3]) rest j"
  by (simp add: answer_def queries_def)

lemma answer_0: "answer w h (c # rest) 0 = get_resp w h c 3"
  by (simp add: answer_def queries_def)

lemma try_collections_none:
  assumes "\<forall>j < length cs. \<not> yields_document (answer w (calls s) cs j)"
  shows "fst (try_collections w cs s) = Inr PyNone
   \<and> calls (snd (try_collections w cs s)) = calls s @ queries cs
   \<and> app (snd (try_collections w cs s)) = app s
   \<and> out_file (snd (try_collections w cs s)) = out_file s"
  using assms
proof (induction cs arbitrary: s)
  case Nil
  then show ?case by (simp add: prims queries_def)
next
  case (Cons c rest)
  from Cons.prems have n0: "\<not> yields_document (get_resp w (calls s) c 3)"
    using answer_0 [of w "calls s" c rest] by force
  have "\<forall>j < length rest. \<not> yields_document (answer w (calls (s\<lparr>calls := calls s @ [Get c 3]\<rparr>)) rest j)"
    using Cons.prems by (auto simp: answer_Cons_Suc [symmetric])
  from Cons.IH [OF this] show ?case
    by (simp add: try_collections_skip [OF n0] queries_def del: try_collections.simps)
qed

lemma try_collections_first:
  assumes "i < length cs" "yields_document (answer w (calls s) cs i)"
    "\<forall>j < i. \<not> yields_document (answer w (calls s) cs j)"
  shows "fst (try_collections w cs s) = Inr (Name (cs ! i))
   \<and> calls (snd (try_collections w cs s)) = calls s @ queries (take (Suc i) cs)
   \<and> app (snd (try_collections w cs s)) = app s
   \<and> out_file (snd (try_collections w cs s)) = out_file s"
  using assms
proof (induction cs arbitrary: s i)
  case Nil
  then show ?case by simp
next
  case (Cons c rest)
  show ?case
  proof (cases i)
    case 0
    with Cons.prems have "yields_document (get_resp w (calls s) c 3)"
      by (simp add: answer_0)
    from try_collections_accept [OF this, of rest] 0 show ?thesis
      by (simp add: queries_def del: try_collections.simps)
  next
    case (Suc k)
    with Cons.prems have n0: "\<not> yields_document (get_resp w (calls s) c 3)"
      using answer_0 [of w "calls s" c rest] by force
    let ?s = "s\<lparr>calls := calls s @ [Get c 3]\<rparr>"
    have a: "k < length rest" using Cons.prems Suc by simp
    have b: "yields_document (answer w (calls ?s) rest k)"
      using Cons.prems Suc by (simp add: answer_Cons_Suc)
    have c: "\<forall>j < k. \<not> yields_document (answer w (calls ?s) rest j)"
      using Cons.prems Suc by (auto simp: answer_Cons_Suc [symmetric])
    from Cons.IH [OF a b c] show ?thesis using Suc
      by (simp add: try_collections_skip [OF n0] queries_def del: try_collections.simps)
  qed
qed

subsection \<open>What every step leaves untouched\<close>

lemma print_all_eq: "print_all ls s = (Inr (), s\<lparr>out := out s @ ls\<rparr>)"
  by (induction ls arbitrary: s) (simp_all add: prims)

lemma explore_docs_frame:
  "(\<exists>r. fst (explore_docs i docs acc s) = Inr r)
   \<and> calls (snd (explore_docs i docs acc s)) = calls s
   \<and> app (snd (explore_docs i docs acc s)) = app s
   \<and> out_file (snd (explore_docs i docs acc s)) = out_file s"
proof (induction docs arbitrary: i acc s)
  case Nil
  then show ?case by (simp add: prims)
next
  case (Cons d ds)
  show ?case
    using Cons.IH by (simp add: prims print_all_eq)
qed

lemma init_firestore_frame:
  "out_file (snd (init_firestore w s)) = out_file s
   \<and> (app s \<noteq> None \<longrightarrow> app (snd (init_firestore w s)) \<noteq> None)
   \<and> (fst (init_firestore w s) = Inr None \<longrightarrow> \<not> connects w s)
   \<and> (\<forall>e. fst (init_firestore w s) = Inl e \<longrightarrow> \<not> connects w s)"
  by (auto simp: init_firestore_def prims connects_def split: option.splits exn.splits)

lemma try_collections_frame:
  "(\<exists>r. fst (try_collections w cs s) = Inr r)
   \<and> app (snd (try_collections w cs s)) = app s
   \<and> out_file (snd (try_collections w cs s)) = out_file s"
proof (induction cs arbitrary: s)
  case Nil
  then show ?case by (simp add: prims)
next
  case (Cons c rest)
  show ?case
  proof (cases "yields_document (get_resp w (calls s) c 3)")
    case True
    from try_collections_accept [OF this, of rest] show ?thesis by simp
  next
    case False
    from Cons.IH [of "s\<lparr>calls := calls s @ [Get c 3]\<rparr>"] show ?thesis
      by (simp add: try_collections_skip [OF False] del: try_collections.simps)
  qed
qed

lemma users_frame:
  "(fst (explore_users_structure w s) = Inr PyNone \<or> fst (explore_users_structure w s) = Inr EmptyList)
   \<and> out_file (snd (explore_users_structure w s)) = out_file s
   \<and> (app s \<noteq> None \<longrightarrow> app (snd (explore_users_structure w s)) \<noteq> None)"
proof -
  let ?s0 = "s\<lparr>out := out s @ [chars [CHR 0x0A] @ Gl People # chars '' Exploring users structure...'', rule_line 60]\<rparr>"
  obtain r s1 where i: "init_firestore w ?s0 = (r, s1)" by (cases "init_firestore w ?s0") auto
  with init_firestore_frame [of w ?s0]
  have f: "out_file s1 = out_file s" "app s \<noteq> None \<longrightarrow> app s1 \<noteq> None" by auto
  show ?thesis using i f
    by (auto simp: explore_users_structure_def prims print_all_eq split: sum.splits option.splits)
qed

lemma products_frame:
  "(fst (explore_products_structure w s) = Inr PyNone
      \<or> fst (explore_products_structure w s) = Inr EmptyList)
   \<and> out_file (snd (explore_products_structure w s)) = out_file s
   \<and> (app s \<noteq> None \<longrightarrow> app (snd (explore_products_structure w s)) \<noteq> None)"
proof -
  let ?s0 = "s\<lparr>out := out s @ [chars [CHR 0x0A] @ Gl Package # chars '' Exploring products structure...'', rule_line 60]\<rparr>"
  obtain r s1 where i: "init_firestore w ?s0 = (r, s1)" by (cases "init_firestore w ?s0") auto
  with init_firestore_frame [of w ?s0]
  have f: "out_file s1 = out_file s" "app s \<noteq> None \<longrightarrow> app s1 \<noteq> None" by auto
  show ?thesis using i f
    by (auto simp: explore_products_structure_def prims print_all_eq split: sum.splits option.splits)
qed

lemma collection_frame:
  "(\<exists>r. fst (explore_collection_structure w n l s) = Inr r)
   \<and> out_file (snd (explore_collection_structure w n l s)) = out_file s
   \<and> (app s \<noteq> None \<longrightarrow> app (snd (explore_collection_structure w n l s)) \<noteq> None)"
proof -
  let ?s0 = "s\<lparr>out := out s @ [chars [CHR 0x0A] @ Gl Magnifier
            # chars ('' Exploring '' @ [sq] @ n @ [sq] @ '' collection...''), rule_line 60]\<rparr>"
  obtain r s1 where i: "init_firestore w ?s0 = (r, s1)" by (cases "init_firestore w ?s0") auto
  with init_firestore_frame [of w ?s0]
  have f: "out_file s1 = out_file s" "app s \<noteq> None \<longrightarrow> app s1 \<noteq> None" by auto
  show ?thesis
  proof (cases r)
    case (Inl e)
    with i f show ?thesis by (simp add: explore_collection_structure_def prims)
  next
    case (Inr db)
    show ?thesis
    proof (cases db)
      case None
      with Inr i f show ?thesis by (simp add: explore_collection_structure_def prims)
    next
      case (Some d)
      show ?thesis
      proof (cases "get_resp w (calls s1) n l")
        case (Inl e)
        with Some Inr i f show ?thesis by (simp add: explore_collection_structure_def prims)
      next
        case g: (Inr docs)
        let ?s2 = "s1\<lparr>calls := calls s1 @ [Get n l],
                     out := out s1 @ [chars (''Found '' @ str_nat (length docs) @ '' documents in ''
                        @ [sq] @ n @ [sq])]\<rparr>"
        obtain x s3 where e: "explore_docs 1 docs [] ?s2 = (x, s3)"
          by (cases "explore_docs 1 docs [] ?s2") auto
        with explore_docs_frame [of 1 docs "[]" ?s2]
        obtain y where "x = Inr y" "app s3 = app s1" "out_file s3 = out_file s1" by auto
        with e g Some Inr i f show ?thesis
          by (simp add: explore_collection_structure_def prims)
      qed
    qed
  qed
qed

lemma orders_frame:
  "(\<exists>r. fst (find_orders_by_criteria w s) = Inr r)
   \<and> out_file (snd (find_orders_by_criteria w s)) = out_file s
   \<and> (app s \<noteq> None \<longrightarrow> app (snd (find_orders_by_criteria w s)) \<noteq> None)"
proof -
  let ?s0 = "s\<lparr>out := out s @ [chars [CHR 0x0A] @ Gl Magnifier # chars '' Searching for orders...'', rule_line 60]\<rparr>"
  obtain r s1 where i: "init_firestore w ?s0 = (r, s1)" by (cases "init_firestore w ?s0") auto
  with init_firestore_frame [of w ?s0]
  have f: "out_file s1 = out_file s" "app s \<noteq> None \<longrightarrow> app s1 \<noteq> None" by auto
  obtain x s2 where t: "try_collections w collections_to_try s1 = (x, s2)"
    by (cases "try_collections w collections_to_try s1") auto
  with try_collections_frame [of w collections_to_try s1]
  obtain y where "x = Inr y" "app s2 = app s1" "out_file s2 = out_file s1" by auto
  with i f t show ?thesis
    by (auto simp: find_orders_by_criteria_def prims split: sum.splits option.splits)
qed


lemma list_all_connected:
  assumes "connects w s"
  shows "calls (snd (list_all_collections w s)) = calls s @ session_calls s @ [Collections]
   \<and> out_file (snd (list_all_collections w s))
     = (case collections_resp w (calls s @ session_calls s) of
          Inl e \<Rightarrow> out_file s
        | Inr names \<Rightarrow>
            (case open_err w of Some e \<Rightarrow> out_file s | None \<Rightarrow> Some (json_dumps 2 names)))"
proof -
  from init_firestore_connects [OF assms] obtain a where
    "init_firestore w s = (Inr (Some (Db a)), s\<lparr>app := Some a, calls := calls s @ session_calls s\<rparr>)"
    by blast
  then show ?thesis
    by (auto simp: list_all_collections_def prims split: sum.splits option.splits)
qed

subsection \<open>The whole run\<close>

lemma bnd_Inr: "m s = (Inr x, s') \<Longrightarrow> bnd m f s = f x s'"
  by (simp add: bnd_def)

lemma bnd_print: "bnd (py_print t) f s = f () (s\<lparr>out := out s @ [t]\<rparr>)"
  by (simp add: bnd_def py_print_def)

lemma main_decomp:
  "\<exists>s5. main w s = list_all_collections w s5
        \<and> out_file s5 = out_file s \<and> (app s \<noteq> None \<longrightarrow> app s5 \<noteq> None)"
proof -
  define s0 where "s0 = s\<lparr>out := out s @ [Gl Magnifier # chars '' FIRESTORE EXPLORATION'']\<rparr>
     \<lparr>out := out (s\<lparr>out := out s @ [Gl Magnifier # chars '' FIRESTORE EXPLORATION'']\<rparr>) @ [rule_line 80]\<rparr>"
  define s0' where "s0' = s0\<lparr>out := out s0 @ [chars
                ''Exploring Firestore collections to understand data structure for API...'']\<rparr>"
  have f0: "out_file s0' = out_file s" "app s0' = app s" by (simp_all add: s0_def s0'_def)
  obtain x1 s1 where e1: "explore_users_structure w s0' = (x1, s1)"
    by (cases "explore_users_structure w s0'") auto
  with users_frame [of w s0'] f0 obtain r1 where
    f1: "x1 = Inr r1" "out_file s1 = out_file s" "app s \<noteq> None \<longrightarrow> app s1 \<noteq> None" by auto
  obtain x2 s2 where e2: "find_orders_by_criteria w s1 = (x2, s2)"
    by (cases "find_orders_by_criteria w s1") auto
  with orders_frame [of w s1] f1 obtain r2 where
    f2: "x2 = Inr r2" "out_file s2 = out_file s" "app s \<noteq> None \<longrightarrow> app s2 \<noteq> None" by auto
  define step3 :: "unit prog" where
    "step3 = (if truthy r2
               then bnd (explore_collection_structure w (name_of r2) 3) (\<lambda>_. ret ())
               else ret ())"
  obtain x3 s3 where e3: "step3 s2 = (x3, s3)" by (cases "step3 s2") auto
  have f3: "x3 = Inr ()" "out_file s3 = out_file s" "app s \<noteq> None \<longrightarrow> app s3 \<noteq> None"
    using e3 f2 collection_frame [of w "name_of r2" 3 s2]
    by (auto simp: step3_def bnd_def ret_def split: if_splits prod.splits sum.splits)
  obtain x4 s4 where e4: "explore_products_structure w s3 = (x4, s4)"
    by (cases "explore_products_structure w s3") auto
  with products_frame [of w s3] f3 obtain r4 where
    f4: "x4 = Inr r4" "out_file s4 = out_file s" "app s \<noteq> None \<longrightarrow> app s4 \<noteq> None" by auto
  define s5 where "s5 = s4\<lparr>out := out s4 @ [chars [CHR 0x0A] @ Gl Clipboard
                     # chars '' Listing all collections...'']\<rparr>
     \<lparr>out := out (s4\<lparr>out := out s4 @ [chars [CHR 0x0A] @ Gl Clipboard
                     # chars '' Listing all collections...'']\<rparr>) @ [rule_line 60]\<rparr>"
  have "main w s = list_all_collections w s5"
    unfolding main_def bnd_print
    using e1 e2 e3 e4 f1(1) f2(1) f3(1) f4(1)
    by (simp add: bnd_Inr s0_def s0'_def s5_def step3_def)
  moreover have "out_file s5 = out_file s" "app s \<noteq> None \<longrightarrow> app s5 \<noteq> None"
    using f4 by (simp_all add: s5_def)
  ultimately show ?thesis by blast
qed


lemma main_listing:
  assumes "connects w s"
  shows "\<exists>h. calls (snd (main w s)) = h @ [Collections]
     \<and> out_file (snd (main w s))
       = (case collections_resp w h of
            Inl e \<Rightarrow> out_file s
          | Inr names \<Rightarrow>
              (case open_err w of Some e \<Rightarrow> out_file s | None \<Rightarrow> Some (json_dumps 2 names)))"
proof -
  from main_decomp [of w s] obtain s5 where
    m: "main w s = list_all_collections w s5" and f: "out_file s5 = out_file s"
      "app s \<noteq> None \<longrightarrow> app s5 \<noteq> None" by blast
  from assms f have "connects w s5" by (auto simp: connects_def)
  from list_all_connected [OF this] m f(1) show ?thesis
    by (metis append.assoc)
qed

subsection \<open>Claims about connecting\<close>

text \<open>
  Claim C6. \<open>init_firestore\<close> is idempotent within a process. When an app exists,
  any number of calls in a row leave it in place, check no credential path, load no
  certificate and initialise no app (each call adds \<open>firestore.client()\<close> to the call
  log and nothing else), and each yields the handle of that same app, unless the client
  constructor itself raises. In particular, after a call that returned a handle, every
  later call returns the same handle.
\<close>

theorem init_firestore_idempotent:
  "(app s = Some a \<longrightarrow>
      init_times w n s
      = (replicate n (case client_err w of Some e \<Rightarrow> Inl e | None \<Rightarrow> Inr (Some (Db a))),
         s\<lparr>calls := calls s @ replicate n Client\<rparr>))
   \<and> (init_firestore w s = (Inr (Some d), s') \<longrightarrow>
        init_times w n s'
        = (replicate n (Inr (Some d)), s'\<lparr>calls := calls s' @ replicate n Client\<rparr>))"
proof (intro conjI impI)
  assume "app s = Some a"
  then show "init_times w n s
      = (replicate n (case client_err w of Some e \<Rightarrow> Inl e | None \<Rightarrow> Inr (Some (Db a))),
         s\<lparr>calls := calls s @ replicate n Client\<rparr>)"
    by (rule init_times_app)
next
  assume i: "init_firestore w s = (Inr (Some d), s')"
  obtain a where d: "d = Db a" by (cases d)
  from init_firestore_handle_app [OF i [unfolded d]]
  have "app s' = Some a" "client_err w = None" by simp_all
  with init_times_app [of s' a w n] d
  show "init_times w n s'
        = (replicate n (Inr (Some d)), s'\<lparr>calls := calls s' @ replicate n Client\<rparr>)"
    by simp
qed

theorem init_firestore_idempotent_witness:
  "app (fresh_process None\<lparr>app := Some 7\<rparr>) = Some 7
   \<and> init_times (mock_service (\<lambda>name. Inr []) (Inr [])) 3 (fresh_process None\<lparr>app := Some 7\<rparr>)
     = ([Inr (Some (Db 7)), Inr (Some (Db 7)), Inr (Some (Db 7))],
        fresh_process None\<lparr>app := Some 7, calls := [Client, Client, Client]\<rparr>)
   \<and> init_firestore (mock_service (\<lambda>name. Inr []) (Inr [])) (fresh_process None)
     = (Inr (Some (Db 2)),
        fresh_process None\<lparr>calls := [CredPathExists, Certificate, InitializeApp, Client],
          app := Some 2\<rparr>)
   \<and> init_times (mock_service (\<lambda>name. Inr []) (Inr [])) 2
       (fresh_process None\<lparr>calls := [CredPathExists, Certificate, InitializeApp, Client],
          app := Some 2\<rparr>)
     = ([Inr (Some (Db 2)), Inr (Some (Db 2))],
        fresh_process None\<lparr>calls := [CredPathExists, Certificate, InitializeApp, Client,
          Client, Client], app := Some 2\<rparr>)"
proof -
  let ?w = "mock_service (\<lambda>name. Inr []) (Inr [])"
  let ?s1 = "fresh_process None\<lparr>calls := [CredPathExists, Certificate, InitializeApp, Client],
          app := Some 2\<rparr>"
  have a: "app (fresh_process None\<lparr>app := Some 7\<rparr>) = Some 7" by simp
  have i: "init_firestore ?w (fresh_process None) = (Inr (Some (Db 2)), ?s1)"
    by (simp add: init_firestore_def prims mock_service_def fresh_process_def)
  from init_firestore_idempotent [of "fresh_process None\<lparr>app := Some 7\<rparr>" 7 ?w 3] a
    init_firestore_idempotent [of "fresh_process None" 0 ?w 2 "Db 2" ?s1] i
  show ?thesis
    by (simp add: mock_service_def fresh_process_def numeral_eq_Suc)
qed

text \<open>
  Claim C5. When the credential file does not exist and no app was initialised,
  \<open>init_firestore\<close> prints that the file was not found and returns no handle; each
  step returns its empty result (\<open>[]\<close>) having only checked the path; and the whole
  run completes with exit status 0, its only calls being the four checks of the path: no
  call of the database service, the output file untouched.
\<close>

theorem missing_credentials:
  assumes "\<not> cred_exists w" and "app s = None"
  shows "init_firestore w s
         = (Inr None, s\<lparr>calls := calls s @ [CredPathExists], out := out s @ [cred_missing_line]\<rparr>)
   \<and> fst (explore_users_structure w s) = Inr EmptyList
   \<and> calls (snd (explore_users_structure w s)) = calls s @ [CredPathExists]
   \<and> fst (find_orders_by_criteria w s) = Inr EmptyList
   \<and> calls (snd (find_orders_by_criteria w s)) = calls s @ [CredPathExists]
   \<and> fst (explore_collection_structure w name limit s) = Inr []
   \<and> calls (snd (explore_collection_structure w name limit s)) = calls s @ [CredPathExists]
   \<and> fst (explore_products_structure w s) = Inr EmptyList
   \<and> calls (snd (explore_products_structure w s)) = calls s @ [CredPathExists]
   \<and> fst (main w s) = Inr () \<and> exit_status w s = 0
   \<and> calls (snd (main w s)) = calls s @ replicate 4 CredPathExists
   \<and> out_file (snd (main w s)) = out_file s
   \<and> app (snd (main w s)) = None"
proof -
  have 1: "init_firestore w s
         = (Inr None, s\<lparr>calls := calls s @ [CredPathExists], out := out s @ [cred_missing_line]\<rparr>)"
    using assms by (simp add: init_firestore_no_cred)
  have 2: "fst (explore_users_structure w s) = Inr EmptyList
     \<and> calls (snd (explore_users_structure w s)) = calls s @ [CredPathExists]"
    using assms by (simp add: explore_users_structure_def init_firestore_def prims)
  have 3: "fst (find_orders_by_criteria w s) = Inr EmptyList
     \<and> calls (snd (find_orders_by_criteria w s)) = calls s @ [CredPathExists]"
    using assms by (simp add: find_orders_by_criteria_def init_firestore_def prims)
  have 4: "fst (explore_collection_structure w name limit s) = Inr []
     \<and> calls (snd (explore_collection_structure w name limit s)) = calls s @ [CredPathExists]"
    using assms by (simp add: explore_collection_structure_def init_firestore_def prims)
  have 5: "fst (explore_products_structure w s) = Inr EmptyList
     \<and> calls (snd (explore_products_structure w s)) = calls s @ [CredPathExists]"
    using assms by (simp add: explore_products_structure_def init_firestore_def prims)
  have 6: "fst (main w s) = Inr ()
     \<and> calls (snd (main w s)) = calls s @ replicate 4 CredPathExists
     \<and> out_file (snd (main w s)) = out_file s \<and> app (snd (main w s)) = None"
    using assms
    by (simp add: main_def explore_users_structure_def find_orders_by_criteria_def
         explore_products_structure_def list_all_collections_def init_firestore_def prims
         numeral_eq_Suc)
  from 6 have 7: "exit_status w s = 0" by (simp add: exit_status_def)
  from 1 2 3 4 5 6 7 show ?thesis by simp
qed

theorem missing_credentials_witness:
  "\<not> cred_exists (mock_service (\<lambda>name. Inr []) (Inr [''users''])\<lparr>cred_exists := False\<rparr>)
   \<and> app (fresh_process None) = None
   \<and> fst (main (mock_service (\<lambda>name. Inr []) (Inr [''users''])\<lparr>cred_exists := False\<rparr>)
        (fresh_process None)) = Inr ()
   \<and> exit_status (mock_service (\<lambda>name. Inr []) (Inr [''users''])\<lparr>cred_exists := False\<rparr>)
        (fresh_process None) = 0
   \<and> calls (snd (main (mock_service (\<lambda>name. Inr []) (Inr [''users''])\<lparr>cred_exists := False\<rparr>)
        (fresh_process None)))
     = [CredPathExists, CredPathExists, CredPathExists, CredPathExists]
   \<and> out_file (snd (main (mock_service (\<lambda>name. Inr []) (Inr [''users''])\<lparr>cred_exists := False\<rparr>)
        (fresh_process None))) = None"
proof -
  let ?w = "mock_service (\<lambda>name. Inr []) (Inr [''users''])\<lparr>cred_exists := False\<rparr>"
  have a: "\<not> cred_exists ?w" by (simp add: mock_service_def)
  have b: "app (fresh_process None) = None" by (simp add: fresh_process_def)
  from missing_credentials [OF a b, of "''users''" 3] a b show ?thesis
    by (simp add: fresh_process_def numeral_eq_Suc)
qed

subsection \<open>Claims about the discovery of the orders collection\<close>

lemma find_orders_connected:
  assumes "connects w s"
  shows "\<exists>s1. find_orders_by_criteria w s = try_collections w collections_to_try s1
          \<and> calls s1 = calls s @ session_calls s \<and> out_file s1 = out_file s"
proof -
  let ?s0 = "s\<lparr>out := out s @ [chars [CHR 0x0A] @ Gl Magnifier # chars '' Searching for orders...'', rule_line 60]\<rparr>"
  from assms have "connects w ?s0" by (simp add: connects_def)
  from init_firestore_connects [OF this] obtain a where
    i: "init_firestore w ?s0
        = (Inr (Some (Db a)), ?s0\<lparr>app := Some a, calls := calls ?s0 @ session_calls ?s0\<rparr>)"
    by blast
  let ?s1 = "?s0\<lparr>app := Some a, calls := calls ?s0 @ session_calls ?s0\<rparr>"
  obtain x s2 where t: "try_collections w collections_to_try ?s1 = (x, s2)"
    by (cases "try_collections w collections_to_try ?s1") auto
  with try_collections_frame [of w collections_to_try ?s1] obtain y where "x = Inr y" by auto
  with i t have "find_orders_by_criteria w s = try_collections w collections_to_try ?s1"
    by (simp add: find_orders_by_criteria_def prims)
  moreover have "calls ?s1 = calls s @ session_calls s" "out_file ?s1 = out_file s"
    by (simp_all add: session_calls_def)
  ultimately show ?thesis by blast
qed

lemma distinct_collections_to_try: "distinct collections_to_try"
  by (simp add: collections_to_try_def)

lemmas svc = mock_service_def fresh_process_def connects_def session_calls_def answer_def
  queries_def collections_to_try_def

text \<open>
  Claim C1. For every sequence of service responses, once a handle is obtained
  \<open>find_orders_by_criteria\<close> queries the candidate names in the fixed order
  \<open>orders\<close>, \<open>Orders\<close>, \<open>order\<close>, \<open>purchase_orders\<close>, \<open>transactions\<close>,
  asking for at most 3 documents each, and returns the first name whose fetch yields a
  document: the queries made are exactly those for the names up to that one, so no later
  candidate is queried. With \<open>i = 2\<close>: when \<open>order\<close> is the first to yield a
  document, the result is \<open>order\<close>, and \<open>purchase_orders\<close> and \<open>transactions\<close>
  are not queried.
\<close>

theorem discovery_first_match:
  assumes "connects w s"
    and "i < length collections_to_try"
    and "yields_document (answer w (calls s @ session_calls s) collections_to_try i)"
    and "\<forall>j < i. \<not> yields_document (answer w (calls s @ session_calls s) collections_to_try j)"
  shows "fst (find_orders_by_criteria w s) = Inr (Name (collections_to_try ! i))
   \<and> calls (snd (find_orders_by_criteria w s))
       = calls s @ session_calls s @ queries (take (Suc i) collections_to_try)
   \<and> (\<forall>k. i < k \<and> k < length collections_to_try \<longrightarrow>
         Get (collections_to_try ! k) 3 \<notin> set (queries (take (Suc i) collections_to_try)))
   \<and> collections_to_try = [''orders'', ''Orders'', ''order'', ''purchase_orders'', ''transactions'']"
proof -
  from find_orders_connected [OF assms(1)] obtain s1 where
    f: "find_orders_by_criteria w s = try_collections w collections_to_try s1"
    and c: "calls s1 = calls s @ session_calls s" by blast
  from try_collections_first [of i collections_to_try w s1] assms(2,3,4) c
  have "fst (try_collections w collections_to_try s1) = Inr (Name (collections_to_try ! i))"
    "calls (snd (try_collections w collections_to_try s1))
       = calls s1 @ queries (take (Suc i) collections_to_try)"
    by simp_all
  with f c have a: "fst (find_orders_by_criteria w s) = Inr (Name (collections_to_try ! i))
   \<and> calls (snd (find_orders_by_criteria w s))
       = calls s @ session_calls s @ queries (take (Suc i) collections_to_try)"
    by simp
  have b: "\<forall>k. i < k \<and> k < length collections_to_try \<longrightarrow>
         Get (collections_to_try ! k) 3 \<notin> set (queries (take (Suc i) collections_to_try))"
  proof (intro allI impI notI)
    fix k assume k: "i < k \<and> k < length collections_to_try"
    assume "Get (collections_to_try ! k) 3 \<in> set (queries (take (Suc i) collections_to_try))"
    then have "collections_to_try ! k \<in> set (take (Suc i) collections_to_try)"
      by (auto simp: queries_def)
    then obtain j where "j < Suc i" "j < length collections_to_try"
      "collections_to_try ! j = collections_to_try ! k"
      by (auto simp: in_set_conv_nth)
    with k distinct_collections_to_try show False
      by (simp add: nth_eq_iff_index_eq)
  qed
  from a b show ?thesis by (simp add: collections_to_try_def)
qed

theorem discovery_first_match_witness:
  "connects third_name_service (fresh_process None)
   \<and> 2 < length collections_to_try
   \<and> yields_document (answer third_name_service
         (calls (fresh_process None) @ session_calls (fresh_process None)) collections_to_try 2)
   \<and> \<not> yields_document (answer third_name_service
         (calls (fresh_process None) @ session_calls (fresh_process None)) collections_to_try 0)
   \<and> \<not> yields_document (answer third_name_service
         (calls (fresh_process None) @ session_calls (fresh_process None)) collections_to_try 1)
   \<and> fst (find_orders_by_criteria third_name_service (fresh_process None)) = Inr (Name ''order'')
   \<and> calls (snd (find_orders_by_criteria third_name_service (fresh_process None)))
     = [CredPathExists, Certificate, InitializeApp, Client,
        Get ''orders'' 3, Get ''Orders'' 3, Get ''order'' 3]"
proof -
  let ?w = third_name_service and ?s = "fresh_process None"
  have h1: "connects ?w ?s" by (simp add: third_name_service_def svc)
  have h2: "2 < length collections_to_try" by (simp add: svc)
  have h3: "yields_document (answer ?w (calls ?s @ session_calls ?s) collections_to_try 2)"
    by (simp add: third_name_service_def svc)
  have h4a: "\<not> yields_document (answer ?w (calls ?s @ session_calls ?s) collections_to_try 0)"
    and h4b: "\<not> yields_document (answer ?w (calls ?s @ session_calls ?s) collections_to_try 1)"
    by (simp_all add: third_name_service_def svc)
  have h4: "\<forall>j < 2. \<not> yields_document (answer ?w (calls ?s @ session_calls ?s) collections_to_try j)"
    using h4a h4b by (auto simp: less_Suc_eq numeral_2_eq_2)
  from discovery_first_match [OF h1 h2 h3 h4]
  have "fst (find_orders_by_criteria ?w ?s) = Inr (Name ''order'')"
    and "calls (snd (find_orders_by_criteria ?w ?s))
     = [CredPathExists, Certificate, InitializeApp, Client,
        Get ''orders'' 3, Get ''Orders'' 3, Get ''order'' 3]"
    by (simp_all add: svc numeral_eq_Suc)
  with h1 h2 h3 h4a h4b show ?thesis by blast
qed

text \<open>
  Claim C4. When no candidate yields a document, \<open>find_orders_by_criteria\<close> returns
  \<open>None\<close> without raising, and has queried each of the five candidates exactly once,
  in the listed order.
\<close>

theorem discovery_exhaustion:
  assumes "connects w s"
    and "\<forall>j < length collections_to_try.
           \<not> yields_document (answer w (calls s @ session_calls s) collections_to_try j)"
  shows "fst (find_orders_by_criteria w s) = Inr PyNone
   \<and> calls (snd (find_orders_by_criteria w s))
       = calls s @ session_calls s
         @ [Get ''orders'' 3, Get ''Orders'' 3, Get ''order'' 3, Get ''purchase_orders'' 3,
            Get ''transactions'' 3]"
proof -
  from find_orders_connected [OF assms(1)] obtain s1 where
    f: "find_orders_by_criteria w s = try_collections w collections_to_try s1"
    and c: "calls s1 = calls s @ session_calls s" by blast
  from try_collections_none [of collections_to_try w s1] assms(2) c
  have "fst (try_collections w collections_to_try s1) = Inr PyNone"
    "calls (snd (try_collections w collections_to_try s1)) = calls s1 @ queries collections_to_try"
    by simp_all
  with f c show ?thesis by (simp add: queries_def collections_to_try_def)
qed

theorem discovery_exhaustion_witness:
  "connects empty_service (fresh_process None)
   \<and> length collections_to_try = 5
   \<and> \<not> yields_document (answer empty_service
         (calls (fresh_process None) @ session_calls (fresh_process None)) collections_to_try 0)
   \<and> \<not> yields_document (answer empty_service
         (calls (fresh_process None) @ session_calls (fresh_process None)) collections_to_try 1)
   \<and> \<not> yields_document (answer empty_service
         (calls (fresh_process None) @ session_calls (fresh_process None)) collections_to_try 2)
   \<and> \<not> yields_document (answer empty_service
         (calls (fresh_process None) @ session_calls (fresh_process None)) collections_to_try 3)
   \<and> \<not> yields_document (answer empty_service
         (calls (fresh_process None) @ session_calls (fresh_process None)) collections_to_try 4)
   \<and> fst (find_orders_by_criteria empty_service (fresh_process None)) = Inr PyNone
   \<and> calls (snd (find_orders_by_criteria empty_service (fresh_process None)))
     = [CredPathExists, Certificate, InitializeApp, Client,
        Get ''orders'' 3, Get ''Orders'' 3, Get ''order'' 3, Get ''purchase_orders'' 3,
        Get ''transactions'' 3]"
proof -
  let ?w = empty_service and ?s = "fresh_process None"
  have h1: "connects ?w ?s" by (simp add: empty_service_def svc)
  have h2: "\<forall>j < length collections_to_try.
      \<not> yields_document (answer ?w (calls ?s @ session_calls ?s) collections_to_try j)"
    by (simp add: empty_service_def mock_service_def answer_def)
  have h3: "length collections_to_try = 5" by (simp add: collections_to_try_def)
  from discovery_exhaustion [OF h1 h2]
  have "fst (find_orders_by_criteria ?w ?s) = Inr PyNone"
    and "calls (snd (find_orders_by_criteria ?w ?s))
     = [CredPathExists, Certificate, InitializeApp, Client,
        Get ''orders'' 3, Get ''Orders'' 3, Get ''order'' 3, Get ''purchase_orders'' 3,
        Get ''transactions'' 3]"
    by (simp_all add: fresh_process_def session_calls_def)
  moreover from h2 h3
  have "\<not> yields_document (answer ?w (calls ?s @ session_calls ?s) collections_to_try 0)"
    "\<not> yields_document (answer ?w (calls ?s @ session_calls ?s) collections_to_try 1)"
    "\<not> yields_document (answer ?w (calls ?s @ session_calls ?s) collections_to_try 2)"
    "\<not> yields_document (answer ?w (calls ?s @ session_calls ?s) collections_to_try 3)"
    "\<not> yields_document (answer ?w (calls ?s @ session_calls ?s) collections_to_try 4)"
    by simp_all
  ultimately show ?thesis using h1 h3 by blast
qed

lemma queries_take_split:
  assumes "m \<le> n"
  shows "queries (take n cs) = queries (take m cs) @ queries (drop m (take n cs))"
proof -
  have "take m (take n cs) @ drop m (take n cs) = take n cs"
    by (rule append_take_drop_id)
  moreover have "take m (take n cs) = take m cs" using assms by (simp add: min_def)
  ultimately have "take n cs = take m cs @ drop m (take n cs)" by simp
  then show ?thesis by (metis map_append queries_def)
qed

text \<open>
  Claim C10. A candidate whose fetch raises is skipped silently: the loop goes on with
  the next candidate from a state that differs only by the logged query (nothing is
  printed). Such a candidate is never the result of the discovery, the discovery does
  not raise, and the candidate after it is queried next.
\<close>

theorem discovery_skips_errors:
  "(get_resp w (calls s) c 3 = Inl e \<longrightarrow>
      try_collections w (c # rest) s
      = try_collections w rest (s\<lparr>calls := calls s @ [Get c 3]\<rparr>))
   \<and> (connects w s \<and> i < length collections_to_try
        \<and> answer w (calls s @ session_calls s) collections_to_try i = Inl e
        \<and> (\<forall>j < i. \<not> yields_document (answer w (calls s @ session_calls s) collections_to_try j))
      \<longrightarrow> (\<exists>r. fst (find_orders_by_criteria w s) = Inr r \<and> r \<noteq> Name (collections_to_try ! i))
          \<and> (\<exists>later. calls (snd (find_orders_by_criteria w s))
                = calls s @ session_calls s
                  @ queries (take (Suc (Suc i)) collections_to_try) @ later))"
proof (rule conjI; rule impI)
  assume "get_resp w (calls s) c 3 = Inl e"
  then have "\<not> yields_document (get_resp w (calls s) c 3)" by simp
  then show "try_collections w (c # rest) s
      = try_collections w rest (s\<lparr>calls := calls s @ [Get c 3]\<rparr>)"
    by (rule try_collections_skip)
next
  let ?cs = collections_to_try
  let ?h = "calls s @ session_calls s"
  let ?P = "\<lambda>j. j < length ?cs \<and> yields_document (answer w ?h ?cs j)"
  assume a: "connects w s \<and> i < length ?cs \<and> answer w ?h ?cs i = Inl e
        \<and> (\<forall>j < i. \<not> yields_document (answer w ?h ?cs j))"
  then have le: "\<forall>j \<le> i. \<not> yields_document (answer w ?h ?cs j)"
    by (auto simp: le_less)
  from a find_orders_connected [of w s] obtain s1 where
    f: "find_orders_by_criteria w s = try_collections w ?cs s1"
    and c: "calls s1 = ?h" by blast
  show "(\<exists>r. fst (find_orders_by_criteria w s) = Inr r \<and> r \<noteq> Name (?cs ! i))
          \<and> (\<exists>later. calls (snd (find_orders_by_criteria w s))
                = calls s @ session_calls s @ queries (take (Suc (Suc i)) ?cs) @ later)"
  proof (cases "\<exists>k. ?P k")
    case True
    then obtain k where k: "?P k" "\<forall>m < k. \<not> ?P m"
      using exists_least_iff [of ?P] by blast
    with le have ik: "i < k" by (meson not_le_imp_less)
    from k have "\<forall>j < k. \<not> yields_document (answer w (calls s1) ?cs j)"
      using c by auto
    with try_collections_first [of k ?cs w s1] k(1) c
    have r: "fst (try_collections w ?cs s1) = Inr (Name (?cs ! k))"
      "calls (snd (try_collections w ?cs s1)) = ?h @ queries (take (Suc k) ?cs)"
      by simp_all
    from ik k(1) a distinct_collections_to_try have "?cs ! k \<noteq> ?cs ! i"
      by (simp add: nth_eq_iff_index_eq)
    moreover from ik have "Suc (Suc i) \<le> Suc k" by simp
    from queries_take_split [OF this, of ?cs]
    have "queries (take (Suc k) ?cs)
          = queries (take (Suc (Suc i)) ?cs) @ queries (drop (Suc (Suc i)) (take (Suc k) ?cs))" .
    ultimately show ?thesis using f r by simp
  next
    case False
    then have "\<forall>j < length ?cs. \<not> yields_document (answer w (calls s1) ?cs j)"
      using c by auto
    from try_collections_none [OF this]
    have r: "fst (try_collections w ?cs s1) = Inr PyNone"
      "calls (snd (try_collections w ?cs s1)) = ?h @ queries ?cs"
      using c by simp_all
    have "queries ?cs
          = queries (take (Suc (Suc i)) ?cs) @ queries (drop (Suc (Suc i)) ?cs)"
      by (metis append_take_drop_id map_append queries_def)
    with f r show ?thesis by simp
  qed
qed

theorem discovery_skips_errors_witness:
  "get_resp third_name_service (calls (fresh_process None)) ''Orders'' 3
     = Inl (Error ''permission denied'')
   \<and> try_collections third_name_service [''Orders'', ''order''] (fresh_process None)
     = try_collections third_name_service [''order'']
         (fresh_process None\<lparr>calls := calls (fresh_process None) @ [Get ''Orders'' 3]\<rparr>)
   \<and> connects third_name_service (fresh_process None)
   \<and> 1 < length collections_to_try
   \<and> answer third_name_service
        (calls (fresh_process None) @ session_calls (fresh_process None)) collections_to_try 1
      = Inl (Error ''permission denied'')
   \<and> \<not> yields_document (answer third_name_service
         (calls (fresh_process None) @ session_calls (fresh_process None)) collections_to_try 0)
   \<and> (\<exists>r. fst (find_orders_by_criteria third_name_service (fresh_process None)) = Inr r
          \<and> r \<noteq> Name (collections_to_try ! 1))
   \<and> (\<exists>later. calls (snd (find_orders_by_criteria third_name_service (fresh_process None)))
          = calls (fresh_process None) @ session_calls (fresh_process None)
            @ queries (take (Suc (Suc 1)) collections_to_try) @ later)"
proof -
  let ?w = third_name_service and ?s = "fresh_process None"
  have h0: "get_resp ?w (calls ?s) ''Orders'' 3 = Inl (Error ''permission denied'')"
    by (simp add: third_name_service_def svc)
  have h1: "connects ?w ?s" by (simp add: third_name_service_def svc)
  have h2: "1 < length collections_to_try" by (simp add: svc)
  have h3: "answer ?w (calls ?s @ session_calls ?s) collections_to_try 1
      = Inl (Error ''permission denied'')"
    by (simp add: third_name_service_def svc)
  have h4a: "\<not> yields_document (answer ?w (calls ?s @ session_calls ?s) collections_to_try 0)"
    by (simp add: third_name_service_def svc)
  then have h4: "\<forall>j < 1. \<not> yields_document (answer ?w (calls ?s @ session_calls ?s) collections_to_try j)"
    by simp
  from discovery_skips_errors [of ?w ?s "''Orders''" "Error ''permission denied''" "[''order'']" 1]
    h0 h1 h2 h3 h4 h4a
  show ?thesis by blast
qed

subsection \<open>Claims about the whole run\<close>

lemma join_indent:
  "xs \<noteq> [] \<Longrightarrow> pad @ join (sep @ pad) xs = join sep (map ((@) pad) xs)"
  by (induction "sep @ pad" xs rule: join.induct) auto

lemma run_file_connected:
  assumes "cred_exists w" "certificate_err w = None" "client_err w = None" "open_err w = None"
    and "\<forall>h. collections_resp w h = Inr names"
  shows "run_file w f = Some (json_dumps 2 names)"
proof -
  from assms have "connects w (fresh_process f)" by (simp add: connects_def)
  from main_listing [OF this] assms(4,5) show ?thesis
    by (auto simp: run_file_def)
qed

text \<open>
  Claim C7. Whenever the run gets a handle, the enumeration returns and the file opens,
  the run leaves in \<open>firestore_collections.json\<close> exactly \<open>json.dump\<close> of the names
  the service returned, in the order returned, whatever the file held before. Hence
  after two runs against different services the file holds the names of the second run
  only. The text is a JSON array with each name on a line of its own, indented by two
  spaces (\<open>[]\<close> for no names).
\<close>

theorem collections_file_overwritten:
  "(connects w s \<and> open_err w = None \<longrightarrow>
      (\<exists>h. calls (snd (main w s)) = h @ [Collections]
         \<and> (\<forall>names. collections_resp w h = Inr names \<longrightarrow>
               out_file (snd (main w s)) = Some (json_dumps 2 names))))
   \<and> (cred_exists v \<and> certificate_err v = None \<and> client_err v = None \<and> open_err v = None
        \<and> (\<forall>h. collections_resp v h = Inr ns)
      \<longrightarrow> run_file v f = Some (json_dumps 2 ns)
          \<and> run_file v (run_file u f) = Some (json_dumps 2 ns))
   \<and> (names \<noteq> [] \<longrightarrow>
        json_dumps 2 names
        = ''['' @ [CHR 0x0A]
          @ join ('','' @ [CHR 0x0A]) (map (\<lambda>n. ''  '' @ json_str n) names)
          @ [CHR 0x0A] @ '']'')
   \<and> json_dumps 2 [] = ''[]''"
proof (intro conjI impI)
  assume a: "connects w s \<and> open_err w = None"
  with main_listing [of w s] obtain h where
    h: "calls (snd (main w s)) = h @ [Collections]"
    "out_file (snd (main w s))
       = (case collections_resp w h of
            Inl e \<Rightarrow> out_file s
          | Inr names \<Rightarrow>
              (case open_err w of Some e \<Rightarrow> out_file s | None \<Rightarrow> Some (json_dumps 2 names)))"
    by blast
  with a show "\<exists>h. calls (snd (main w s)) = h @ [Collections]
         \<and> (\<forall>names. collections_resp w h = Inr names \<longrightarrow>
               out_file (snd (main w s)) = Some (json_dumps 2 names))"
    by auto
next
  assume a: "cred_exists v \<and> certificate_err v = None \<and> client_err v = None \<and> open_err v = None
        \<and> (\<forall>h. collections_resp v h = Inr ns)"
  then show "run_file v f = Some (json_dumps 2 ns)"
    and "run_file v (run_file u f) = Some (json_dumps 2 ns)"
    by (simp_all add: run_file_connected)
next
  assume n: "names \<noteq> []"
  then have "map json_str names \<noteq> []" by simp
  from join_indent [OF this, of "''  ''" "'','' @ [CHR 0x0A]"]
  have "''  '' @ join ('','' @ [CHR 0x0A] @ ''  '') (map json_str names)
        = join ('','' @ [CHR 0x0A]) (map (\<lambda>n. ''  '' @ json_str n) names)"
    by (simp add: comp_def)
  with n show "json_dumps 2 names
        = ''['' @ [CHR 0x0A]
          @ join ('','' @ [CHR 0x0A]) (map (\<lambda>n. ''  '' @ json_str n) names)
          @ [CHR 0x0A] @ '']''"
    by (simp add: json_dumps_def numeral_2_eq_2)
next
  show "json_dumps 2 [] = ''[]''" by (simp add: json_dumps_def)
qed

lemma json_str_plain:
  assumes "\<forall>c \<in> set s. 32 \<le> (of_char c :: nat) \<and> (of_char c :: nat) < 127 \<and> c \<noteq> dq \<and> c \<noteq> bs"
  shows "json_str s = dq # s @ [dq]"
proof -
  have p: "32 \<le> (of_char c :: nat) \<Longrightarrow> c \<noteq> CHR 0x09 \<and> c \<noteq> CHR 0x0A \<and> c \<noteq> CHR 0x0D
      \<and> c \<noteq> CHR 0x08 \<and> c \<noteq> CHR 0x0C" for c
    by auto
  from assms have "concat (map json_char s) = s"
    by (induction s) (auto simp: json_char_def dest: p)
  then show ?thesis by (simp add: json_str_def)
qed

theorem collections_file_overwritten_witness:
  "(\<exists>h. calls (snd (main (mock_service (\<lambda>name. Inr []) (Inr [''users'', ''orders'']))
                 (fresh_process None))) = h @ [Collections])
   \<and> run_file (mock_service (\<lambda>name. Inr []) (Inr [''users'', ''orders''])) None
     = Some (''['' @ [CHR 0x0A] @ ''  '' @ [dq] @ ''users'' @ [dq] @ '','' @ [CHR 0x0A]
         @ ''  '' @ [dq] @ ''orders'' @ [dq] @ [CHR 0x0A] @ '']'')
   \<and> run_file (mock_service (\<lambda>name. Inr []) (Inr [''products'']))
       (run_file (mock_service (\<lambda>name. Inr []) (Inr [''users'', ''orders''])) None)
     = Some (''['' @ [CHR 0x0A] @ ''  '' @ [dq] @ ''products'' @ [dq] @ [CHR 0x0A] @ '']'')"
proof -
  let ?w1 = "mock_service (\<lambda>name. Inr []) (Inr [''users'', ''orders''])"
  let ?w2 = "mock_service (\<lambda>name. Inr []) (Inr [''products''])"
  have j: "json_str ''users'' = dq # ''users'' @ [dq]" "json_str ''orders'' = dq # ''orders'' @ [dq]"
    "json_str ''products'' = dq # ''products'' @ [dq]"
    by (simp_all add: json_str_plain dq_def bs_def)
  have a1: "cred_exists ?w1 \<and> certificate_err ?w1 = None \<and> client_err ?w1 = None \<and> open_err ?w1 = None
        \<and> (\<forall>h. collections_resp ?w1 h = Inr [''users'', ''orders''])"
    and a2: "cred_exists ?w2 \<and> certificate_err ?w2 = None \<and> client_err ?w2 = None \<and> open_err ?w2 = None
        \<and> (\<forall>h. collections_resp ?w2 h = Inr [''products''])"
    by (simp_all add: mock_service_def)
  have a0: "connects ?w1 (fresh_process None) \<and> open_err ?w1 = None"
    by (simp add: mock_service_def connects_def)
  from collections_file_overwritten
    [where w = ?w1 and s = "fresh_process None" and v = ?w1 and ns = "[''users'', ''orders'']"
       and f = None and u = ?w1 and names = "[''users'', ''orders'']"] a0 a1
  have r0: "\<exists>h. calls (snd (main ?w1 (fresh_process None))) = h @ [Collections]"
    and r1: "run_file ?w1 None = Some (json_dumps 2 [''users'', ''orders''])"
    and r3: "json_dumps 2 [''users'', ''orders'']
        = ''['' @ [CHR 0x0A]
          @ join ('','' @ [CHR 0x0A]) (map (\<lambda>n. ''  '' @ json_str n) [''users'', ''orders''])
          @ [CHR 0x0A] @ '']''"
    by blast+
  from collections_file_overwritten
    [where w = ?w2 and s = "fresh_process None" and v = ?w2 and ns = "[''products'']"
       and f = None and u = ?w1 and names = "[''products'']"] a2
  have r2: "run_file ?w2 (run_file ?w1 None) = Some (json_dumps 2 [''products''])"
    and r4: "json_dumps 2 [''products'']
        = ''['' @ [CHR 0x0A]
          @ join ('','' @ [CHR 0x0A]) (map (\<lambda>n. ''  '' @ json_str n) [''products''])
          @ [CHR 0x0A] @ '']''"
    by blast+
  from r0 r1 r2 r3 r4 j show ?thesis
    by simp
qed














end
